theory Spec2Isabelle
  imports Main
begin

section \<open>Memory model\<close>

text \<open>
  The heap is a family of blocks, each a list of slots.  A slot holds \<open>Some x\<close> when the
  storage carries the value \<open>x\<close> and \<open>None\<close> when it is indeterminate (never written, or
  left behind by a destructor).  A pointer is a block (or \<open>None\<close> for \<open>nullptr\<close>) and an
  offset counted in elements.  Blocks are numbered by a counter that only grows, so a block
  identifier is never handed out twice.

  Every element constructor, assignment and destructor call that the container makes is
  appended to a trace; object lifetimes are read off the trace.  The slots themselves only
  record which value the storage carries.

  \<open>size_t\<close> is modelled by \<open>nat\<close>.  The one place where the source can wrap around
  (\<open>size_ - 1\<close> and \<open>--size_\<close> at \<open>size_ = 0\<close>, \<open>size_ - index\<close>) is written out in
  \<open>sz_sub\<close>.  Allocation never fails.  \<open>assert\<close> is modelled as compiled in.
\<close>

type_synonym ptr = "nat option \<times> nat"

datatype 'a event =
    Alloc nat nat
  | Dealloc nat
  | CopyCtor ptr 'a
  | MoveCtor ptr 'a
  | ValueCtor ptr 'a
  | CopyAsgn ptr 'a
  | MoveAsgn ptr 'a
  | Dtor ptr
  | TmpCtor 'a
  | TmpDtor

record raw_memory =
  m_buffer :: "nat option"
  m_capacity :: nat

record vector =
  m_data :: raw_memory
  m_size :: nat

record 'a state =
  vecs :: "nat \<Rightarrow> vector"
  blocks :: "nat \<Rightarrow> 'a option list option"
  fresh :: nat
  trace :: "'a event list"

text \<open>
  What a call can do: return a value, leave by an exception (the state after unwinding is
  kept), stop at a failed \<open>assert\<close>, or run into undefined behaviour that the model can
  detect (an access outside every block, a read of an indeterminate slot, a pointer
  difference across blocks).
\<close>

datatype ('r, 's) outcome = Returns 'r 's | Throws 's | AssertFailed | Undefined

definition bind :: "('r, 's) outcome \<Rightarrow> ('r \<Rightarrow> 's \<Rightarrow> ('q, 's) outcome) \<Rightarrow> ('q, 's) outcome" where
  "bind m f = (case m of Returns r s \<Rightarrow> f r s | Throws s \<Rightarrow> Throws s
                 | AssertFailed \<Rightarrow> AssertFailed | Undefined \<Rightarrow> Undefined)"

text \<open>Stack unwinding: the destructor of a local object runs when an exception passes.\<close>

definition unwind :: "('s \<Rightarrow> 's) \<Rightarrow> ('r, 's) outcome \<Rightarrow> ('r, 's) outcome" where
  "unwind cleanup m = (case m of Throws s \<Rightarrow> Throws (cleanup s) | Returns r s \<Rightarrow> Returns r s
                 | AssertFailed \<Rightarrow> AssertFailed | Undefined \<Rightarrow> Undefined)"

definition assert :: "bool \<Rightarrow> 's \<Rightarrow> (unit, 's) outcome" where
  "assert c st = (if c then Returns () st else AssertFailed)"

definition sz_sub :: "nat \<Rightarrow> nat \<Rightarrow> nat" where
  "sz_sub a b = (if b \<le> a then a - b else a + 2 ^ 64 - b)"

definition ptr_add :: "ptr \<Rightarrow> nat \<Rightarrow> ptr" where
  "ptr_add p k = (fst p, snd p + k)"

text \<open>Every use of \<open>ptr_sub\<close> below sits behind a check that the offset is at least \<open>k\<close>.\<close>

definition ptr_sub :: "ptr \<Rightarrow> nat \<Rightarrow> ptr" where
  "ptr_sub p k = (fst p, snd p - k)"

definition ptr_diff :: "ptr \<Rightarrow> ptr \<Rightarrow> 's \<Rightarrow> (nat, 's) outcome" where
  "ptr_diff p q st = (if fst p = fst q \<and> snd q \<le> snd p then Returns (snd p - snd q) st else Undefined)"

definition in_storage :: "'a state \<Rightarrow> ptr \<Rightarrow> bool" where
  "in_storage st p = (case fst p of None \<Rightarrow> False
     | Some b \<Rightarrow> (case blocks st b of None \<Rightarrow> False | Some cs \<Rightarrow> snd p < length cs))"

definition load :: "'a state \<Rightarrow> ptr \<Rightarrow> 'a option" where
  "load st p = (case fst p of None \<Rightarrow> None
     | Some b \<Rightarrow> (case blocks st b of None \<Rightarrow> None
         | Some cs \<Rightarrow> if snd p < length cs then cs ! snd p else None))"

definition store :: "ptr \<Rightarrow> 'a option \<Rightarrow> 'a state \<Rightarrow> 'a state" where
  "store p c st = (case fst p of None \<Rightarrow> st
     | Some b \<Rightarrow> (case blocks st b of None \<Rightarrow> st
         | Some cs \<Rightarrow> st\<lparr>blocks := (blocks st)(b \<mapsto> cs[snd p := c])\<rparr>))"

definition log :: "'a event \<Rightarrow> 'a state \<Rightarrow> 'a state" where
  "log ev st = st\<lparr>trace := trace st @ [ev]\<rparr>"

section \<open>The element type\<close>

text \<open>
  The template parameter \<open>T\<close> is a parameter of the model: which branch the
  \<open>if constexpr\<close> on \<open>is_nothrow_move_constructible_v<T> || !is_copy_constructible_v<T>\<close>
  takes, on which values the copy constructor and the copy assignment throw, the value a
  move leaves in its source, and the value of a value-initialised element.  Move
  construction, move assignment, value-initialisation and destructors do not throw.
\<close>

record 'a elem_type =
  nothrow_move :: bool
  copy_throws :: "'a \<Rightarrow> bool"
  copy_assign_throws :: "'a \<Rightarrow> bool"
  moved_from :: "'a \<Rightarrow> 'a"
  default_value :: 'a

text \<open>
  An argument of element type is a reference to an object outside the heap (of which only
  the value is known) or to a slot of the heap, passed as \<open>const T&\<close> or as \<open>T&&\<close>.
\<close>

datatype 'a operand = External 'a | Element ptr

datatype 'a arg = ByCopy "'a operand" | ByMove "'a operand"

definition read_operand :: "'a state \<Rightarrow> 'a operand \<Rightarrow> 'a option" where
  "read_operand st s = (case s of External x \<Rightarrow> Some x | Element p \<Rightarrow> load st p)"

definition copy_value :: "'a elem_type \<Rightarrow> 'a operand \<Rightarrow> 'a state \<Rightarrow> ('a, 'a state) outcome" where
  "copy_value T s st = (case read_operand st s of None \<Rightarrow> Undefined
     | Some x \<Rightarrow> if copy_throws T x then Throws st else Returns x st)"

definition move_value :: "'a elem_type \<Rightarrow> 'a operand \<Rightarrow> 'a state \<Rightarrow> ('a, 'a state) outcome" where
  "move_value T s st = (case read_operand st s of None \<Rightarrow> Undefined
     | Some x \<Rightarrow> Returns x (case s of External y \<Rightarrow> st | Element p \<Rightarrow> store p (Some (moved_from T x)) st))"

text \<open>Placement new: \<open>new (p) T(a)\<close>.\<close>

definition construct :: "'a elem_type \<Rightarrow> ptr \<Rightarrow> 'a arg \<Rightarrow> 'a state \<Rightarrow> (unit, 'a state) outcome" where
  "construct T p a st = (if \<not> in_storage st p then Undefined else
     (case a of
        ByCopy s \<Rightarrow> bind (copy_value T s st) (\<lambda>x st1. Returns () (log (CopyCtor p x) (store p (Some x) st1)))
      | ByMove s \<Rightarrow> bind (move_value T s st) (\<lambda>x st1. Returns () (log (MoveCtor p x) (store p (Some x) st1)))))"

text \<open>A local object: \<open>T tmp(a)\<close>; the value is handed to the caller.\<close>

definition construct_tmp :: "'a elem_type \<Rightarrow> 'a arg \<Rightarrow> 'a state \<Rightarrow> ('a, 'a state) outcome" where
  "construct_tmp T a st =
     (case a of
        ByCopy s \<Rightarrow> bind (copy_value T s st) (\<lambda>x st1. Returns x (log (TmpCtor x) st1))
      | ByMove s \<Rightarrow> bind (move_value T s st) (\<lambda>x st1. Returns x (log (TmpCtor x) st1)))"

text \<open>Assignment through a reference: \<open>*p = a\<close>.\<close>

definition assign :: "'a elem_type \<Rightarrow> ptr \<Rightarrow> 'a arg \<Rightarrow> 'a state \<Rightarrow> (unit, 'a state) outcome" where
  "assign T p a st = (if \<not> in_storage st p then Undefined else
     (case a of
        ByCopy s \<Rightarrow> (case read_operand st s of None \<Rightarrow> Undefined
           | Some x \<Rightarrow> if copy_assign_throws T x then Throws st
                       else Returns () (log (CopyAsgn p x) (store p (Some x) st)))
      | ByMove s \<Rightarrow> bind (move_value T s st) (\<lambda>x st1. Returns () (log (MoveAsgn p x) (store p (Some x) st1)))))"

definition value_construct :: "'a elem_type \<Rightarrow> ptr \<Rightarrow> 'a state \<Rightarrow> (unit, 'a state) outcome" where
  "value_construct T p st = (if \<not> in_storage st p then Undefined
     else Returns () (log (ValueCtor p (default_value T)) (store p (Some (default_value T)) st)))"

definition destroy_at :: "ptr \<Rightarrow> 'a state \<Rightarrow> (unit, 'a state) outcome" where
  "destroy_at p st = (if \<not> in_storage st p then Undefined
     else Returns () (log (Dtor p) (store p None st)))"

section \<open>Library algorithms\<close>

fun destroy_n :: "ptr \<Rightarrow> nat \<Rightarrow> 'a state \<Rightarrow> (unit, 'a state) outcome" where
  "destroy_n p 0 st = Returns () st"
| "destroy_n p (Suc n) st = bind (destroy_at p st) (\<lambda>u. destroy_n (ptr_add p 1) n)"

text \<open>
  \<open>std::uninitialized_copy_n\<close> and \<open>std::uninitialized_move_n\<close>: element \<open>k\<close> of the
  source range is constructed into element \<open>k\<close> of the destination; when a constructor
  throws, the elements constructed so far are destroyed and the exception goes on.
\<close>

fun uninitialized_loop ::
  "'a elem_type \<Rightarrow> ('a operand \<Rightarrow> 'a arg) \<Rightarrow> ptr \<Rightarrow> ptr \<Rightarrow> nat \<Rightarrow> nat \<Rightarrow> 'a state \<Rightarrow> (unit, 'a state) outcome" where
  "uninitialized_loop T mk first d_first k 0 st = Returns () st"
| "uninitialized_loop T mk first d_first k (Suc n) st =
     (case construct T (ptr_add d_first k) (mk (Element (ptr_add first k))) st of
        Returns u st1 \<Rightarrow> uninitialized_loop T mk first d_first (Suc k) n st1
      | Throws st1 \<Rightarrow> bind (destroy_n d_first k st1) (\<lambda>u. Throws)
      | AssertFailed \<Rightarrow> AssertFailed
      | Undefined \<Rightarrow> Undefined)"

definition uninitialized_copy_n :: "'a elem_type \<Rightarrow> ptr \<Rightarrow> nat \<Rightarrow> ptr \<Rightarrow> 'a state \<Rightarrow> (unit, 'a state) outcome" where
  "uninitialized_copy_n T first n d_first st = uninitialized_loop T ByCopy first d_first 0 n st"

definition uninitialized_move_n :: "'a elem_type \<Rightarrow> ptr \<Rightarrow> nat \<Rightarrow> ptr \<Rightarrow> 'a state \<Rightarrow> (unit, 'a state) outcome" where
  "uninitialized_move_n T first n d_first st = uninitialized_loop T ByMove first d_first 0 n st"

fun uninitialized_value_construct_n :: "'a elem_type \<Rightarrow> ptr \<Rightarrow> nat \<Rightarrow> 'a state \<Rightarrow> (unit, 'a state) outcome" where
  "uninitialized_value_construct_n T p 0 st = Returns () st"
| "uninitialized_value_construct_n T p (Suc n) st =
     bind (value_construct T p st) (\<lambda>u. uninitialized_value_construct_n T (ptr_add p 1) n)"

text \<open>\<open>std::move(first, last, d_first)\<close>: \<open>*d_first++ = std::move(*first++)\<close>, front to back.\<close>

fun move_forward :: "'a elem_type \<Rightarrow> ptr \<Rightarrow> ptr \<Rightarrow> nat \<Rightarrow> 'a state \<Rightarrow> (unit, 'a state) outcome" where
  "move_forward T first d_first 0 st = Returns () st"
| "move_forward T first d_first (Suc n) st =
     bind (assign T d_first (ByMove (Element first)) st)
          (\<lambda>u. move_forward T (ptr_add first 1) (ptr_add d_first 1) n)"

definition std_move :: "'a elem_type \<Rightarrow> ptr \<Rightarrow> ptr \<Rightarrow> ptr \<Rightarrow> 'a state \<Rightarrow> (unit, 'a state) outcome" where
  "std_move T first last_it d_first st =
     bind (ptr_diff last_it first st) (\<lambda>n. move_forward T first d_first n)"

text \<open>\<open>std::move_backward(first, last, d_last)\<close>: \<open>*(--d_last) = std::move(*(--last))\<close>, back to front.\<close>

fun move_back :: "'a elem_type \<Rightarrow> ptr \<Rightarrow> ptr \<Rightarrow> nat \<Rightarrow> 'a state \<Rightarrow> (unit, 'a state) outcome" where
  "move_back T last_it d_last 0 st = Returns () st"
| "move_back T last_it d_last (Suc n) st =
     bind (assign T (ptr_sub d_last 1) (ByMove (Element (ptr_sub last_it 1))) st)
          (\<lambda>u. move_back T (ptr_sub last_it 1) (ptr_sub d_last 1) n)"

definition move_backward :: "'a elem_type \<Rightarrow> ptr \<Rightarrow> ptr \<Rightarrow> ptr \<Rightarrow> 'a state \<Rightarrow> (unit, 'a state) outcome" where
  "move_backward T first last_it d_last st =
     bind (ptr_diff last_it first st) (\<lambda>n. move_back T last_it d_last n)"

section \<open>RawMemory\<close>

definition Allocate :: "nat \<Rightarrow> 'a state \<Rightarrow> (nat option, 'a state) outcome" where
  "Allocate n st = (if n \<noteq> 0
     then Returns (Some (fresh st))
            (st\<lparr>blocks := (blocks st)(fresh st \<mapsto> replicate n None), fresh := Suc (fresh st),
                trace := trace st @ [Alloc (fresh st) n]\<rparr>)
     else Returns None st)"

definition Deallocate :: "nat option \<Rightarrow> 'a state \<Rightarrow> 'a state" where
  "Deallocate buf st = (case buf of None \<Rightarrow> st
     | Some b \<Rightarrow> st\<lparr>blocks := (blocks st)(b := None), trace := trace st @ [Dealloc b]\<rparr>)"

definition RawMemory_default :: raw_memory where
  "RawMemory_default = \<lparr>m_buffer = None, m_capacity = 0\<rparr>"

definition RawMemory_new :: "nat \<Rightarrow> 'a state \<Rightarrow> (raw_memory, 'a state) outcome" where
  "RawMemory_new capacity st =
     bind (Allocate capacity st) (\<lambda>buf. Returns \<lparr>m_buffer = buf, m_capacity = capacity\<rparr>)"

definition RawMemory_dtor :: "raw_memory \<Rightarrow> 'a state \<Rightarrow> 'a state" where
  "RawMemory_dtor rm st = Deallocate (m_buffer rm) st"

definition RawMemory_plus :: "raw_memory \<Rightarrow> nat \<Rightarrow> 's \<Rightarrow> (ptr, 's) outcome" where
  "RawMemory_plus rm offset st =
     bind (assert (offset \<le> m_capacity rm) st) (\<lambda>u. Returns (m_buffer rm, offset))"

definition RawMemory_at :: "raw_memory \<Rightarrow> nat \<Rightarrow> 's \<Rightarrow> (ptr, 's) outcome" where
  "RawMemory_at rm index st =
     bind (assert (index < m_capacity rm) st) (\<lambda>u. Returns (m_buffer rm, index))"

definition GetAddress :: "raw_memory \<Rightarrow> ptr" where
  "GetAddress rm = (m_buffer rm, 0)"

section \<open>Vector\<close>

definition begin_it :: "vector \<Rightarrow> ptr" where
  "begin_it v = GetAddress (m_data v)"

definition end_it :: "vector \<Rightarrow> ptr" where
  "end_it v = ptr_add (GetAddress (m_data v)) (m_size v)"

definition Vector_default :: vector where
  "Vector_default = \<lparr>m_data = RawMemory_default, m_size = 0\<rparr>"

definition Size :: "'a state \<Rightarrow> nat \<Rightarrow> nat" where
  "Size st this = m_size (vecs st this)"

definition Capacity :: "'a state \<Rightarrow> nat \<Rightarrow> nat" where
  "Capacity st this = m_capacity (m_data (vecs st this))"

definition set_vec :: "nat \<Rightarrow> vector \<Rightarrow> 'a state \<Rightarrow> 'a state" where
  "set_vec this v st = st\<lparr>vecs := (vecs st)(this := v)\<rparr>"

text \<open>\<open>~Vector\<close> on a vector object: the elements, then the member \<open>data_\<close>.\<close>

definition Vector_dtor :: "vector \<Rightarrow> 'a state \<Rightarrow> (unit, 'a state) outcome" where
  "Vector_dtor v st =
     bind (destroy_n (GetAddress (m_data v)) (m_size v) st)
          (\<lambda>u st1. Returns () (RawMemory_dtor (m_data v) st1))"

text \<open>
  \<open>Vector(const Vector&)\<close>: the new object is returned to the caller; when a copy throws,
  the member \<open>data_\<close>, already constructed, is destroyed.
\<close>

definition Vector_copy :: "'a elem_type \<Rightarrow> vector \<Rightarrow> 'a state \<Rightarrow> (vector, 'a state) outcome" where
  "Vector_copy T other st =
     bind (RawMemory_new (m_size other) st) (\<lambda>new_data st1.
       bind (unwind (RawMemory_dtor new_data)
               (uninitialized_copy_n T (GetAddress (m_data other)) (m_size other) (GetAddress new_data) st1))
            (\<lambda>u. Returns \<lparr>m_data = new_data, m_size = m_size other\<rparr>))"

definition Vector_sized :: "'a elem_type \<Rightarrow> nat \<Rightarrow> 'a state \<Rightarrow> (vector, 'a state) outcome" where
  "Vector_sized T n st =
     bind (RawMemory_new n st) (\<lambda>new_data st1.
       bind (uninitialized_value_construct_n T (GetAddress new_data) n st1)
            (\<lambda>u. Returns \<lparr>m_data = new_data, m_size = n\<rparr>))"

text \<open>\<open>Vector(Vector&& other)\<close>, constructing the object at \<open>this\<close>.\<close>

definition Vector_move :: "nat \<Rightarrow> nat \<Rightarrow> 'a state \<Rightarrow> 'a state" where
  "Vector_move this other st =
     (let src = vecs st other;
          st1 = set_vec other (src\<lparr>m_data := RawMemory_default, m_size := 0\<rparr>) st
      in set_vec this \<lparr>m_data = m_data src, m_size = m_size src\<rparr> st1)"

definition move_assign :: "nat \<Rightarrow> nat \<Rightarrow> 'a state \<Rightarrow> 'a state" where
  "move_assign this rhs st =
     (if this \<noteq> rhs then
        (let a = vecs st this; b = vecs st rhs;
             st1 = set_vec rhs (b\<lparr>m_data := m_data a\<rparr>) (set_vec this (a\<lparr>m_data := m_data b\<rparr>) st);
             n = m_size (vecs st1 rhs);
             st2 = set_vec rhs ((vecs st1 rhs)\<lparr>m_size := 0\<rparr>) st1
         in set_vec this ((vecs st2 this)\<lparr>m_size := n\<rparr>) st2)
      else st)"

definition Swap :: "nat \<Rightarrow> nat \<Rightarrow> 'a state \<Rightarrow> 'a state" where
  "Swap this other st =
     (let a = vecs st this; b = vecs st other
      in set_vec other a (set_vec this b st))"

fun assign_prefix :: "'a elem_type \<Rightarrow> raw_memory \<Rightarrow> raw_memory \<Rightarrow> nat \<Rightarrow> nat \<Rightarrow> 'a state \<Rightarrow> (unit, 'a state) outcome" where
  "assign_prefix T d s i 0 st = Returns () st"
| "assign_prefix T d s i (Suc n) st =
     bind (RawMemory_at d i st) (\<lambda>p st1.
     bind (RawMemory_at s i st1) (\<lambda>q st2.
     bind (assign T p (ByCopy (Element q)) st2) (\<lambda>u. assign_prefix T d s (Suc i) n)))"

definition copy_assign :: "'a elem_type \<Rightarrow> nat \<Rightarrow> nat \<Rightarrow> 'a state \<Rightarrow> (unit, 'a state) outcome" where
  "copy_assign T this rhs st =
     (if this \<noteq> rhs then
        (let a = vecs st this; b = vecs st rhs in
         if m_size b > m_capacity (m_data a) then
           bind (Vector_copy T b st) (\<lambda>tmp st1.
             Vector_dtor a (set_vec this tmp st1))
         else
           (let i = min (m_size a) (m_size b) in
            bind (assign_prefix T (m_data a) (m_data b) 0 i st) (\<lambda>u st1.
            bind (if i < m_size b
                  then uninitialized_copy_n T (ptr_add (GetAddress (m_data b)) i) (m_size b - i)
                         (ptr_add (GetAddress (m_data a)) i) st1
                  else destroy_n (ptr_add (GetAddress (m_data a)) i) (m_size a - i) st1)
                 (\<lambda>u st2. Returns () (set_vec this (a\<lparr>m_size := m_size b\<rparr>) st2)))))
      else Returns () st)"

definition relocate :: "'a elem_type \<Rightarrow> ptr \<Rightarrow> nat \<Rightarrow> ptr \<Rightarrow> 'a state \<Rightarrow> (unit, 'a state) outcome" where
  "relocate T first n d_first st =
     (if nothrow_move T then uninitialized_move_n T first n d_first st
      else uninitialized_copy_n T first n d_first st)"

definition Reserve :: "'a elem_type \<Rightarrow> nat \<Rightarrow> nat \<Rightarrow> 'a state \<Rightarrow> (unit, 'a state) outcome" where
  "Reserve T this new_capacity st =
     (let v = vecs st this in
      if new_capacity \<le> m_capacity (m_data v) then Returns () st
      else
        bind (RawMemory_new new_capacity st) (\<lambda>new_data st1.
        bind (unwind (RawMemory_dtor new_data)
                (bind (relocate T (GetAddress (m_data v)) (m_size v) (GetAddress new_data) st1)
                      (\<lambda>u. destroy_n (GetAddress (m_data v)) (m_size v))))
             (\<lambda>u st2. Returns () (RawMemory_dtor (m_data v) (set_vec this (v\<lparr>m_data := new_data\<rparr>) st2)))))"

definition Resize :: "'a elem_type \<Rightarrow> nat \<Rightarrow> nat \<Rightarrow> 'a state \<Rightarrow> (unit, 'a state) outcome" where
  "Resize T this new_size st =
     (let n = m_size (vecs st this) in
      bind (if new_size > n then
              bind (Reserve T this new_size st) (\<lambda>u st1.
                uninitialized_value_construct_n T
                  (ptr_add (GetAddress (m_data (vecs st1 this))) n) (new_size - n) st1)
            else if new_size < n then
              destroy_n (ptr_add (GetAddress (m_data (vecs st this))) new_size) (n - new_size) st
            else Returns () st)
           (\<lambda>u st2. Returns () (set_vec this ((vecs st2 this)\<lparr>m_size := new_size\<rparr>) st2)))"

text \<open>
  The growth path shared by \<open>PushBack\<close> and \<open>EmplaceBack\<close>, which spell it out in the same
  words: a new block, the old elements relocated, the new element constructed behind them,
  the old elements destroyed, the blocks swapped.  The local \<open>new_data\<close> is released when an
  exception passes, and releases the old block at the end of the scope.
\<close>

definition grow_back :: "'a elem_type \<Rightarrow> nat \<Rightarrow> 'a arg \<Rightarrow> 'a state \<Rightarrow> (ptr, 'a state) outcome" where
  "grow_back T this a st =
     (let v = vecs st this;
          new_capacity = (if m_size v = 0 then 1 else m_size v * 2)
      in
        bind (RawMemory_new new_capacity st) (\<lambda>new_data st1.
        let new_buffer = GetAddress new_data in
        bind (unwind (RawMemory_dtor new_data)
                (bind (relocate T (GetAddress (m_data v)) (m_size v) new_buffer st1) (\<lambda>u st2.
                 bind (construct T (ptr_add new_buffer (m_size v)) a st2) (\<lambda>u.
                 destroy_n (GetAddress (m_data v)) (m_size v)))))
             (\<lambda>u st3. Returns (ptr_add new_buffer (m_size v))
                (RawMemory_dtor (m_data v) (set_vec this (v\<lparr>m_data := new_data\<rparr>) st3)))))"

text \<open>The private helpers \<open>Destroy\<close> and \<open>DestroyN\<close>.\<close>

definition Destroy :: "ptr \<Rightarrow> 'a state \<Rightarrow> (unit, 'a state) outcome" where
  "Destroy buf st = destroy_at buf st"

fun DestroyN_from :: "ptr \<Rightarrow> nat \<Rightarrow> nat \<Rightarrow> 'a state \<Rightarrow> (unit, 'a state) outcome" where
  "DestroyN_from buf i 0 st = Returns () st"
| "DestroyN_from buf i (Suc n) st = bind (Destroy (ptr_add buf i) st) (\<lambda>u. DestroyN_from buf (Suc i) n)"

definition DestroyN :: "ptr \<Rightarrow> nat \<Rightarrow> 'a state \<Rightarrow> (unit, 'a state) outcome" where
  "DestroyN buf n st = DestroyN_from buf 0 n st"

definition inc_size :: "nat \<Rightarrow> 'a state \<Rightarrow> 'a state" where
  "inc_size this st = set_vec this ((vecs st this)\<lparr>m_size := m_size (vecs st this) + 1\<rparr>) st"

definition EmplaceBack :: "'a elem_type \<Rightarrow> nat \<Rightarrow> 'a arg \<Rightarrow> 'a state \<Rightarrow> (ptr, 'a state) outcome" where
  "EmplaceBack T this a st =
     (let v = vecs st this in
      if m_size v = m_capacity (m_data v) then
        bind (grow_back T this a st) (\<lambda>new_elem st1. Returns new_elem (inc_size this st1))
      else
        bind (RawMemory_plus (m_data v) (m_size v) st) (\<lambda>new_elem st1.
        bind (construct T new_elem a st1) (\<lambda>u st2. Returns new_elem (inc_size this st2))))"

definition PushBack :: "'a elem_type \<Rightarrow> nat \<Rightarrow> 'a operand \<Rightarrow> 'a state \<Rightarrow> (unit, 'a state) outcome" where
  "PushBack T this val st =
     (let v = vecs st this in
      if m_size v = m_capacity (m_data v) then
        bind (grow_back T this (ByCopy val) st) (\<lambda>new_elem st1. Returns () (inc_size this st1))
      else
        bind (RawMemory_plus (m_data v) (m_size v) st) (\<lambda>p st1.
        bind (construct T p (ByCopy val) st1) (\<lambda>u st2. Returns () (inc_size this st2))))"

definition PopBack :: "nat \<Rightarrow> 'a state \<Rightarrow> (unit, 'a state) outcome" where
  "PopBack this st =
     (let v = vecs st this in
      bind (assert (m_size v > 0) st) (\<lambda>u st1.
      bind (RawMemory_plus (m_data v) (m_size v) st1) (\<lambda>p st2.
      bind (destroy_at (ptr_sub p 1) st2) (\<lambda>u st3.
        Returns () (set_vec this (v\<lparr>m_size := sz_sub (m_size v) 1\<rparr>) st3)))))"

text \<open>
  The two branches of \<open>Emplace\<close> for a position other than \<open>end()\<close>: with the capacity
  exhausted, and with room left.
\<close>

definition Emplace_grow :: "'a elem_type \<Rightarrow> nat \<Rightarrow> nat \<Rightarrow> 'a arg \<Rightarrow> 'a state \<Rightarrow> (ptr, 'a state) outcome" where
  "Emplace_grow T this index a st =
     (let v = vecs st this;
          new_capacity = (if m_size v = 0 then 1 else m_size v * 2)
      in
        bind (RawMemory_new new_capacity st) (\<lambda>new_data st1.
        let new_buffer = GetAddress new_data in
        bind (unwind (RawMemory_dtor new_data)
                (bind (relocate T (GetAddress (m_data v)) index new_buffer st1) (\<lambda>u st2.
                 bind (construct T (ptr_add new_buffer index) a st2) (\<lambda>u.
                 relocate T (ptr_add (GetAddress (m_data v)) index) (sz_sub (m_size v) index)
                   (ptr_add (ptr_add new_buffer index) 1)))))
             (\<lambda>u st3.
        bind (DestroyN (GetAddress (m_data v)) (m_size v) st3) (\<lambda>u st4.
          Returns (ptr_add new_buffer index)
            (inc_size this (RawMemory_dtor (m_data v) (set_vec this (v\<lparr>m_data := new_data\<rparr>) st4)))))))"

definition shift_right :: "'a elem_type \<Rightarrow> vector \<Rightarrow> nat \<Rightarrow> 'a state \<Rightarrow> (unit, 'a state) outcome" where
  "shift_right T v index st =
     bind (RawMemory_plus (m_data v) (m_size v) st) (\<lambda>p st1.
     bind (RawMemory_at (m_data v) (m_size v - 1) st1) (\<lambda>q st2.
     bind (construct T p (ByMove (Element q)) st2) (\<lambda>u st3.
     bind (RawMemory_plus (m_data v) index st3) (\<lambda>first st4.
     bind (RawMemory_plus (m_data v) (m_size v) st4) (\<lambda>l st5.
     bind (RawMemory_plus (m_data v) (m_size v) st5) (\<lambda>d_last.
       move_backward T first (ptr_sub l 1) d_last))))))"

definition Emplace_shift :: "'a elem_type \<Rightarrow> nat \<Rightarrow> nat \<Rightarrow> 'a arg \<Rightarrow> 'a state \<Rightarrow> (ptr, 'a state) outcome" where
  "Emplace_shift T this index a st =
     (let v = vecs st this in
      bind (construct_tmp T a st) (\<lambda>tmp_copy st1.
      bind (if index < m_size v then shift_right T v index st1 else Returns () st1) (\<lambda>u st2.
      bind (RawMemory_at (m_data v) index st2) (\<lambda>p st3.
      bind (assign T p (ByMove (External tmp_copy)) st3) (\<lambda>u st4.
      bind (RawMemory_plus (m_data v) index st4) (\<lambda>r st5.
        Returns r (log TmpDtor (inc_size this st5))))))))"

definition Emplace :: "'a elem_type \<Rightarrow> nat \<Rightarrow> ptr \<Rightarrow> 'a arg \<Rightarrow> 'a state \<Rightarrow> (ptr, 'a state) outcome" where
  "Emplace T this pos a st =
     (let v = vecs st this in
      bind (ptr_diff pos (begin_it v) st) (\<lambda>index st0.
      if m_size v = m_capacity (m_data v) then
        (if pos = end_it v then
           bind (EmplaceBack T this a st0) (\<lambda>r st1. Returns (ptr_add (begin_it (vecs st1 this)) index) st1)
         else Emplace_grow T this index a st0)
      else
        (if pos = end_it v then
           bind (EmplaceBack T this a st0) (\<lambda>r st1. Returns (ptr_add (begin_it (vecs st1 this)) index) st1)
         else Emplace_shift T this index a st0)))"

definition shift_left :: "'a elem_type \<Rightarrow> vector \<Rightarrow> nat \<Rightarrow> 'a state \<Rightarrow> (unit, 'a state) outcome" where
  "shift_left T v index st =
     bind (RawMemory_plus (m_data v) index st) (\<lambda>f st1.
     bind (RawMemory_plus (m_data v) (m_size v) st1) (\<lambda>l st2.
     bind (RawMemory_plus (m_data v) index st2) (\<lambda>d.
       std_move T (ptr_add f 1) l d)))"

definition Erase :: "'a elem_type \<Rightarrow> nat \<Rightarrow> ptr \<Rightarrow> 'a state \<Rightarrow> (ptr, 'a state) outcome" where
  "Erase T this pos st =
     (let v = vecs st this in
      bind (ptr_diff pos (begin_it v) st) (\<lambda>index st0.
      bind (RawMemory_plus (m_data v) index st0) (\<lambda>p st1.
      bind (destroy_at p st1) (\<lambda>u st2.
      bind (if index < sz_sub (m_size v) 1 then shift_left T v index st2 else Returns () st2) (\<lambda>u st3.
        Returns (ptr_add (begin_it v) index)
          (set_vec this (v\<lparr>m_size := sz_sub (m_size v) 1\<rparr>) st3))))))"

definition Insert :: "'a elem_type \<Rightarrow> nat \<Rightarrow> ptr \<Rightarrow> 'a operand \<Rightarrow> 'a state \<Rightarrow> (ptr, 'a state) outcome" where
  "Insert T this pos val st = Emplace T this pos (ByCopy val) st"

definition Insert_rvalue :: "'a elem_type \<Rightarrow> nat \<Rightarrow> ptr \<Rightarrow> 'a operand \<Rightarrow> 'a state \<Rightarrow> (ptr, 'a state) outcome" where
  "Insert_rvalue T this pos val st = Emplace T this pos (ByMove val) st"

text \<open>\<open>operator[]\<close> returns a reference, here the pointer to the slot.\<close>

definition Index :: "nat \<Rightarrow> nat \<Rightarrow> 'a state \<Rightarrow> (ptr, 'a state) outcome" where
  "Index this index st =
     (let v = vecs st this in
      bind (assert (index < m_size v) st) (\<lambda>u. RawMemory_at (m_data v) index))"

section \<open>Invariant and observations\<close>

definition block_size :: "'a state \<Rightarrow> nat \<Rightarrow> nat" where
  "block_size st b = (case blocks st b of None \<Rightarrow> 0 | Some cs \<Rightarrow> length cs)"

text \<open>
  \<open>frame st st'\<close>: the vector objects, the block counter and the extent of every block
  are the same in both states; only slot contents and the trace may differ.
\<close>

definition frame :: "'a state \<Rightarrow> 'a state \<Rightarrow> bool" where
  "frame st st' \<longleftrightarrow> vecs st' = vecs st \<and> fresh st' = fresh st \<and> (\<forall>c. block_size st' c = block_size st c)"

text \<open>
  \<open>holds st this xs\<close>: the vector at address \<open>this\<close> is well formed and its elements are
  \<open>xs\<close>.  The buffer is null exactly when the capacity is zero, otherwise it is a block
  of the heap whose extent is the capacity; the size is at most the capacity; slot \<open>i\<close>
  carries \<open>xs ! i\<close> for every \<open>i\<close> below the size.
\<close>

definition holds :: "'a state \<Rightarrow> nat \<Rightarrow> 'a list \<Rightarrow> bool" where
  "holds st this xs \<longleftrightarrow>
     m_size (vecs st this) = length xs \<and> length xs \<le> m_capacity (m_data (vecs st this)) \<and>
     (case m_buffer (m_data (vecs st this)) of
        None \<Rightarrow> m_capacity (m_data (vecs st this)) = 0
      | Some b \<Rightarrow> b < fresh st \<and> 0 < m_capacity (m_data (vecs st this))
                 \<and> block_size st b = m_capacity (m_data (vecs st this))) \<and>
     map (\<lambda>i. load st (m_buffer (m_data (vecs st this)), i)) [0..<length xs] = map Some xs"

definition final_state :: "('r, 's) outcome \<Rightarrow> 's option" where
  "final_state m = (case m of Returns r s \<Rightarrow> Some s | Throws s \<Rightarrow> Some s
                      | AssertFailed \<Rightarrow> None | Undefined \<Rightarrow> None)"

definition throws :: "('r, 's) outcome \<Rightarrow> bool" where
  "throws m = (case m of Throws s \<Rightarrow> True | Returns r s \<Rightarrow> False
                 | AssertFailed \<Rightarrow> False | Undefined \<Rightarrow> False)"


text \<open>
  Example element types and states, used where a statement is evaluated on a concrete
  input.  The copy constructor of both element types throws on the value 13 and a move
  leaves 0 behind; \<open>throwing_copy\<close> has a move constructor that may throw (relocation
  copies), \<open>noexcept_move\<close> has a non-throwing one (relocation moves).
\<close>

definition throwing_copy :: "nat elem_type" where
  "throwing_copy = \<lparr>nothrow_move = False, copy_throws = (\<lambda>x. x = 13),
     copy_assign_throws = (\<lambda>x. x = 13), moved_from = (\<lambda>x. 0), default_value = 0\<rparr>"

definition noexcept_move :: "nat elem_type" where
  "noexcept_move = \<lparr>nothrow_move = True, copy_throws = (\<lambda>x. x = 13),
     copy_assign_throws = (\<lambda>x. x = 13), moved_from = (\<lambda>x. 0), default_value = 0\<rparr>"

definition empty_state :: "nat state" where
  "empty_state = \<lparr>vecs = (\<lambda>a. Vector_default), blocks = (\<lambda>b. None), fresh = 0, trace = []\<rparr>"

definition three_state :: "nat state" where
  "three_state = \<lparr>vecs = (\<lambda>a. Vector_default)(0 := \<lparr>m_data = \<lparr>m_buffer = Some 0, m_capacity = 4\<rparr>, m_size = 3\<rparr>),
     blocks = (\<lambda>b. None)(0 \<mapsto> [Some 1, Some 2, Some 3, None]), fresh = 1, trace = []\<rparr>"

definition two_vectors :: "nat state" where
  "two_vectors = \<lparr>vecs = (\<lambda>a. Vector_default)
       (0 := \<lparr>m_data = \<lparr>m_buffer = Some 0, m_capacity = 5\<rparr>, m_size = 5\<rparr>,
        1 := \<lparr>m_data = \<lparr>m_buffer = Some 1, m_capacity = 2\<rparr>, m_size = 2\<rparr>),
     blocks = (\<lambda>b. None)(0 \<mapsto> [Some 1, Some 2, Some 3, Some 4, Some 5], 1 \<mapsto> [Some 7, Some 8]),
     fresh = 2, trace = []\<rparr>"

definition full_one :: "nat state" where
  "full_one = \<lparr>vecs = (\<lambda>a. Vector_default)(0 := \<lparr>m_data = \<lparr>m_buffer = Some 0, m_capacity = 1\<rparr>, m_size = 1\<rparr>),
     blocks = (\<lambda>b. None)(0 \<mapsto> [Some 7]), fresh = 1, trace = []\<rparr>"

text \<open>
  \<open>post m Q\<close>: when the call \<open>m\<close> ends, by a return or by an exception, the state it leaves
  satisfies \<open>Q\<close>.
\<close>

definition post :: "('r, 's) outcome \<Rightarrow> ('s \<Rightarrow> bool) \<Rightarrow> bool" where
  "post m Q = (case m of Returns r s \<Rightarrow> Q s | Throws s \<Rightarrow> Q s | AssertFailed \<Rightarrow> True | Undefined \<Rightarrow> True)"

text \<open>
  \<open>inserted st this s\<close>: between \<open>st\<close> and \<open>s\<close> the vector at \<open>this\<close> has gained one element,
  its capacity has become \<open>max 1 (2 * size)\<close> if it was full and is the same otherwise,
  and no other vector object has changed.
\<close>

definition inserted :: "'a state \<Rightarrow> nat \<Rightarrow> 'a state \<Rightarrow> bool" where
  "inserted st this s \<longleftrightarrow>
     m_size (vecs s this) = m_size (vecs st this) + 1 \<and>
     m_capacity (m_data (vecs s this)) =
       (if m_size (vecs st this) = m_capacity (m_data (vecs st this))
        then max 1 (2 * m_size (vecs st this)) else m_capacity (m_data (vecs st this))) \<and>
     (\<forall>w. w \<noteq> this \<longrightarrow> vecs s w = vecs st w)"

text \<open>
  \<open>no_shrink st s\<close>: no vector object has a smaller capacity in \<open>s\<close> than in \<open>st\<close>.
\<close>

definition no_shrink :: "'a state \<Rightarrow> 'a state \<Rightarrow> bool" where
  "no_shrink st s \<longleftrightarrow> (\<forall>w. m_capacity (m_data (vecs st w)) \<le> m_capacity (m_data (vecs s w)))"

text \<open>\<open>PushBack(T&&)\<close>: the text of \<open>PushBack(const T&)\<close> with \<open>std::move(value)\<close>.\<close>

definition PushBack_rvalue :: "'a elem_type \<Rightarrow> nat \<Rightarrow> 'a operand \<Rightarrow> 'a state \<Rightarrow> (unit, 'a state) outcome" where
  "PushBack_rvalue T this val st =
     (let v = vecs st this in
      if m_size v = m_capacity (m_data v) then
        bind (grow_back T this (ByMove val) st) (\<lambda>new_elem st1. Returns () (inc_size this st1))
      else
        bind (RawMemory_plus (m_data v) (m_size v) st) (\<lambda>p st1.
        bind (construct T p (ByMove val) st1) (\<lambda>u st2. Returns () (inc_size this st2))))"

text \<open>
  The calls a client can make on vector objects that exist: the assignments and the
  member functions that can change a vector.  The result of a call is dropped.
\<close>

datatype 'a call =
    Call_copy_assign nat nat
  | Call_move_assign nat nat
  | Call_Swap nat nat
  | Call_Reserve nat nat
  | Call_Resize nat nat
  | Call_PushBack nat "'a operand"
  | Call_PushBack_rvalue nat "'a operand"
  | Call_EmplaceBack nat "'a arg"
  | Call_PopBack nat
  | Call_Emplace nat ptr "'a arg"
  | Call_Insert nat ptr "'a operand"
  | Call_Insert_rvalue nat ptr "'a operand"
  | Call_Erase nat ptr
  | Call_Index nat nat

definition drop_result :: "('r, 's) outcome \<Rightarrow> (unit, 's) outcome" where
  "drop_result m = bind m (\<lambda>r. Returns ())"

fun perform :: "'a elem_type \<Rightarrow> 'a call \<Rightarrow> 'a state \<Rightarrow> (unit, 'a state) outcome" where
  "perform T (Call_copy_assign this rhs) st = copy_assign T this rhs st"
| "perform T (Call_move_assign this rhs) st = Returns () (move_assign this rhs st)"
| "perform T (Call_Swap this other) st = Returns () (Swap this other st)"
| "perform T (Call_Reserve this n) st = Reserve T this n st"
| "perform T (Call_Resize this n) st = Resize T this n st"
| "perform T (Call_PushBack this x) st = PushBack T this x st"
| "perform T (Call_PushBack_rvalue this x) st = PushBack_rvalue T this x st"
| "perform T (Call_EmplaceBack this a) st = drop_result (EmplaceBack T this a st)"
| "perform T (Call_PopBack this) st = PopBack this st"
| "perform T (Call_Emplace this pos a) st = drop_result (Emplace T this pos a st)"
| "perform T (Call_Insert this pos x) st = drop_result (Insert T this pos x st)"
| "perform T (Call_Insert_rvalue this pos x) st = drop_result (Insert_rvalue T this pos x st)"
| "perform T (Call_Erase this pos) st = drop_result (Erase T this pos st)"
| "perform T (Call_Index this i) st = drop_result (Index this i st)"

text \<open>
  The preconditions the source leaves to the caller: a position passed to \<open>Erase\<close> is that
  of an element, a position passed to \<open>Emplace\<close> or \<open>Insert\<close> is that of an element or
  \<open>end()\<close>, \<open>PopBack\<close> needs an element, an index is below the size.
\<close>

definition at_element :: "'a state \<Rightarrow> nat \<Rightarrow> ptr \<Rightarrow> bool" where
  "at_element st this pos \<longleftrightarrow> fst pos = m_buffer (m_data (vecs st this)) \<and> snd pos < m_size (vecs st this)"

definition at_element_or_end :: "'a state \<Rightarrow> nat \<Rightarrow> ptr \<Rightarrow> bool" where
  "at_element_or_end st this pos \<longleftrightarrow> fst pos = m_buffer (m_data (vecs st this)) \<and> snd pos \<le> m_size (vecs st this)"

fun in_contract :: "'a call \<Rightarrow> 'a state \<Rightarrow> bool" where
  "in_contract (Call_Erase this pos) st = at_element st this pos"
| "in_contract (Call_Emplace this pos a) st = at_element_or_end st this pos"
| "in_contract (Call_Insert this pos x) st = at_element_or_end st this pos"
| "in_contract (Call_Insert_rvalue this pos x) st = at_element_or_end st this pos"
| "in_contract (Call_PopBack this) st = (0 < m_size (vecs st this))"
| "in_contract (Call_Index this i) st = (i < m_size (vecs st this))"
| "in_contract (Call_copy_assign this rhs) st = True"
| "in_contract (Call_move_assign this rhs) st = True"
| "in_contract (Call_Swap this other) st = True"
| "in_contract (Call_Reserve this n) st = True"
| "in_contract (Call_Resize this n) st = True"
| "in_contract (Call_PushBack this x) st = True"
| "in_contract (Call_PushBack_rvalue this x) st = True"
| "in_contract (Call_EmplaceBack this a) st = True"

text \<open>A sequence of calls, each within its precondition; a call outside is undefined.\<close>

fun run :: "'a elem_type \<Rightarrow> 'a call list \<Rightarrow> 'a state \<Rightarrow> (unit, 'a state) outcome" where
  "run T [] st = Returns () st"
| "run T (c # cs) st = (if in_contract c st then bind (perform T c st) (\<lambda>u. run T cs) else Undefined)"

text \<open>The calls that insert one element into the vector at \<open>this\<close>.\<close>

fun is_insertion :: "nat \<Rightarrow> 'a call \<Rightarrow> bool" where
  "is_insertion this (Call_PushBack w x) = (w = this)"
| "is_insertion this (Call_PushBack_rvalue w x) = (w = this)"
| "is_insertion this (Call_EmplaceBack w a) = (w = this)"
| "is_insertion this (Call_Emplace w pos a) = (w = this)"
| "is_insertion this (Call_Insert w pos x) = (w = this)"
| "is_insertion this (Call_Insert_rvalue w pos x) = (w = this)"
| "is_insertion this (Call_copy_assign w rhs) = False"
| "is_insertion this (Call_move_assign w rhs) = False"
| "is_insertion this (Call_Swap w other) = False"
| "is_insertion this (Call_Reserve w n) = False"
| "is_insertion this (Call_Resize w n) = False"
| "is_insertion this (Call_PopBack w) = False"
| "is_insertion this (Call_Erase w pos) = False"
| "is_insertion this (Call_Index w i) = False"

text \<open>The calls that trade the storage of two vectors.\<close>

fun exchanges :: "'a call \<Rightarrow> bool" where
  "exchanges (Call_Swap this other) = True"
| "exchanges (Call_move_assign this rhs) = True"
| "exchanges (Call_copy_assign this rhs) = False"
| "exchanges (Call_Reserve this n) = False"
| "exchanges (Call_Resize this n) = False"
| "exchanges (Call_PushBack this x) = False"
| "exchanges (Call_PushBack_rvalue this x) = False"
| "exchanges (Call_EmplaceBack this a) = False"
| "exchanges (Call_PopBack this) = False"
| "exchanges (Call_Emplace this pos a) = False"
| "exchanges (Call_Insert this pos x) = False"
| "exchanges (Call_Insert_rvalue this pos x) = False"
| "exchanges (Call_Erase this pos) = False"
| "exchanges (Call_Index this i) = False"

text \<open>
  The sequence of the specification: the capacity after \<open>n\<close> insertions into a vector
  that starts with capacity 0, where an insertion into a full vector sets the capacity to
  \<open>max(1, size * 2)\<close>: 0, 1, 2, 4, 4, 8, 8, 8, 8, 16, ...
\<close>

fun doubling :: "nat \<Rightarrow> nat" where
  "doubling 0 = 0"
| "doubling (Suc n) = (if n = doubling n then max 1 (2 * n) else doubling n)"

text \<open>
  Reading a lifetime off the trace.  An event constructs at \<open>p\<close> when it is a constructor
  call on the storage at \<open>p\<close>, which puts a new object there.  \<open>undisturbed p evs\<close>: the
  object that sits in slot \<open>p\<close> before the events \<open>evs\<close> is not destroyed by them: no
  destructor call on \<open>p\<close> comes before a constructor call on \<open>p\<close>.  \<open>reused p evs\<close>: some
  event of \<open>evs\<close> constructs at \<open>p\<close>.
\<close>

fun constructs :: "ptr \<Rightarrow> 'a event \<Rightarrow> bool" where
  "constructs p (CopyCtor q x) = (q = p)"
| "constructs p (MoveCtor q x) = (q = p)"
| "constructs p (ValueCtor q x) = (q = p)"
| "constructs p (Alloc b n) = False"
| "constructs p (Dealloc b) = False"
| "constructs p (CopyAsgn q x) = False"
| "constructs p (MoveAsgn q x) = False"
| "constructs p (Dtor q) = False"
| "constructs p (TmpCtor x) = False"
| "constructs p TmpDtor = False"

fun undisturbed :: "ptr \<Rightarrow> 'a event list \<Rightarrow> bool" where
  "undisturbed p [] = True"
| "undisturbed p (ev # evs) = (ev \<noteq> Dtor p \<and> (constructs p ev \<or> undisturbed p evs))"

definition reused :: "ptr \<Rightarrow> 'a event list \<Rightarrow> bool" where
  "reused p evs = list_ex (constructs p) evs"

text \<open>
  \<open>post2 m Q E\<close>: a return of \<open>m\<close> leaves a state with \<open>Q\<close>, an exception one with \<open>E\<close>.
\<close>

definition post2 :: "('r, 's) outcome \<Rightarrow> ('s \<Rightarrow> bool) \<Rightarrow> ('s \<Rightarrow> bool) \<Rightarrow> bool" where
  "post2 m Q E = (case m of Returns r s \<Rightarrow> Q s | Throws s \<Rightarrow> E s | AssertFailed \<Rightarrow> True | Undefined \<Rightarrow> True)"

text \<open>
  The invariants behind the claim about the slot that \<open>Erase\<close> leaves behind, for slot \<open>k\<close>
  of block \<open>b\<close> and the events after the first \<open>n\<close> of the trace.

  \<open>keeps b k n r V s\<close>, used inside a call: the object of the slot is undisturbed, block
  \<open>b\<close> is older than any block yet to be allocated, the vector objects are \<open>V\<close>, and if
  \<open>r\<close> then the slot has been reused.

  \<open>spared b k n s\<close>, used between calls: the object of the slot is undisturbed, and the
  slot has been reused or lies at or behind the end of every vector that owns block \<open>b\<close>.
\<close>

definition keeps :: "nat \<Rightarrow> nat \<Rightarrow> nat \<Rightarrow> bool \<Rightarrow> (nat \<Rightarrow> vector) \<Rightarrow> 'a state \<Rightarrow> bool" where
  "keeps b k n r V s \<longleftrightarrow>
     n \<le> length (trace s) \<and> undisturbed (Some b, k) (drop n (trace s)) \<and> b < fresh s \<and> vecs s = V \<and>
     (r \<longrightarrow> reused (Some b, k) (drop n (trace s)))"





section \<open>Basic facts\<close>

lemma ptr_add_simp [simp]: "ptr_add (bo, i) k = (bo, i + k)"
  by (simp add: ptr_add_def)

lemma ptr_sub_simp [simp]: "ptr_sub (bo, i) k = (bo, i - k)"
  by (simp add: ptr_sub_def)

lemma in_storage_iff: "in_storage st (bo, i) = (case bo of None \<Rightarrow> False | Some b \<Rightarrow> i < block_size st b)"
  by (simp add: in_storage_def block_size_def split: option.splits)

lemma in_storage_Some [simp]: "in_storage st (Some b, i) = (i < block_size st b)"
  by (simp add: in_storage_iff)

lemma in_storage_None [simp]: "\<not> in_storage st (None, i)"
  by (simp add: in_storage_iff)

lemma load_outside: "\<not> in_storage st p \<Longrightarrow> load st p = None"
  by (cases p) (auto simp: load_def in_storage_def block_size_def split: option.splits)

lemma store_fields [simp]:
  "vecs (store p c st) = vecs st" "fresh (store p c st) = fresh st" "trace (store p c st) = trace st"
  by (simp_all add: store_def split: option.splits)

lemma block_size_store [simp]: "block_size (store p c st) b = block_size st b"
  by (simp add: store_def block_size_def split: option.splits)

lemma load_store: "load (store p c st) q = (if q = p \<and> in_storage st p then c else load st q)"
  by (cases p; cases q) (auto simp: load_def store_def in_storage_def split: option.splits)

lemma log_fields [simp]:
  "vecs (log ev st) = vecs st" "fresh (log ev st) = fresh st" "blocks (log ev st) = blocks st"
  "trace (log ev st) = trace st @ [ev]"
  by (simp_all add: log_def)

lemma block_size_log [simp]: "block_size (log ev st) b = block_size st b"
  by (simp add: block_size_def)

lemma load_log [simp]: "load (log ev st) p = load st p"
  by (simp add: load_def split: option.splits)

lemma set_vec_fields [simp]:
  "vecs (set_vec a v st) = (vecs st)(a := v)" "fresh (set_vec a v st) = fresh st"
  "blocks (set_vec a v st) = blocks st" "trace (set_vec a v st) = trace st"
  by (simp_all add: set_vec_def)

lemma block_size_set_vec [simp]: "block_size (set_vec a v st) b = block_size st b"
  by (simp add: block_size_def)

lemma load_set_vec [simp]: "load (set_vec a v st) p = load st p"
  by (simp add: load_def split: option.splits)

lemma bind_Returns [simp]: "bind (Returns r s) f = f r s"
  by (simp add: bind_def)

lemma bind_Throws [simp]: "bind (Throws s) f = Throws s"
  by (simp add: bind_def)

lemma bind_AssertFailed [simp]: "bind AssertFailed f = AssertFailed"
  by (simp add: bind_def)

lemma bind_Undefined [simp]: "bind Undefined f = Undefined"
  by (simp add: bind_def)

lemma unwind_simps [simp]:
  "unwind c (Returns r s) = Returns r s" "unwind c (Throws s) = Throws (c s)"
  "unwind c AssertFailed = AssertFailed" "unwind c Undefined = Undefined"
  by (simp_all add: unwind_def)

lemma destroy_at_ok: "in_storage st p \<Longrightarrow> destroy_at p st = Returns () (log (Dtor p) (store p None st))"
  by (simp add: destroy_at_def)

lemma construct_copy_ok:
  "in_storage st p \<Longrightarrow> read_operand st s = Some x \<Longrightarrow> \<not> copy_throws T x \<Longrightarrow>
   construct T p (ByCopy s) st = Returns () (log (CopyCtor p x) (store p (Some x) st))"
  by (simp add: construct_def copy_value_def)

lemma construct_move_elem_ok:
  "in_storage st p \<Longrightarrow> load st q = Some x \<Longrightarrow>
   construct T p (ByMove (Element q)) st =
     Returns () (log (MoveCtor p x) (store p (Some x) (store q (Some (moved_from T x)) st)))"
  by (simp add: construct_def move_value_def read_operand_def)

lemma assign_move_elem_ok:
  "in_storage st p \<Longrightarrow> load st q = Some x \<Longrightarrow>
   assign T p (ByMove (Element q)) st =
     Returns () (log (MoveAsgn p x) (store p (Some x) (store q (Some (moved_from T x)) st)))"
  by (simp add: assign_def move_value_def read_operand_def)

lemma assign_move_ext_ok:
  "in_storage st p \<Longrightarrow>
   assign T p (ByMove (External x)) st = Returns () (log (MoveAsgn p x) (store p (Some x) st))"
  by (simp add: assign_def move_value_def read_operand_def)

lemma assign_copy_elem_ok:
  "in_storage st p \<Longrightarrow> load st q = Some x \<Longrightarrow> \<not> copy_assign_throws T x \<Longrightarrow>
   assign T p (ByCopy (Element q)) st = Returns () (log (CopyAsgn p x) (store p (Some x) st))"
  by (simp add: assign_def read_operand_def)

lemma frame_refl [simp]: "frame st st"
  by (simp add: frame_def)

lemma frame_trans: "frame st st1 \<Longrightarrow> frame st1 st2 \<Longrightarrow> frame st st2"
  by (simp add: frame_def)

lemma frame_store_log [simp]: "frame st (log ev (store p c st))"
  by (simp add: frame_def)

lemma frame_step: "frame (log ev (store p c st)) st' \<Longrightarrow> frame st st'"
  by (simp add: frame_def)

lemma frame_step2: "frame (log ev (store p c (store p' c' st))) st' \<Longrightarrow> frame st st'"
  by (simp add: frame_def)

lemma frameD:
  "frame st st' \<Longrightarrow> vecs st' = vecs st"
  "frame st st' \<Longrightarrow> fresh st' = fresh st"
  "frame st st' \<Longrightarrow> block_size st' c = block_size st c"
  by (simp_all add: frame_def)

lemma destroy_n_ok:
  "i + n \<le> block_size st b \<Longrightarrow>
   \<exists>st'. destroy_n (Some b, i) n st = Returns () st' \<and> frame st st'
      \<and> trace st' = trace st @ map (\<lambda>j. Dtor (Some b, j)) [i..<i + n]
      \<and> (\<forall>q. load st' q = (if fst q = Some b \<and> i \<le> snd q \<and> snd q < i + n then None else load st q))"
proof (induction n arbitrary: i st)
  case 0
  then show ?case by auto
next
  case (Suc n)
  let ?st1 = "log (Dtor (Some b, i)) (store (Some b, i) None st)"
  have "Suc i + n \<le> block_size ?st1 b" using Suc.prems by simp
  from Suc.IH[OF this] obtain st' where
    r: "destroy_n (Some b, Suc i) n ?st1 = Returns () st'" and
    f: "frame ?st1 st'" and
    t: "trace st' = trace ?st1 @ map (\<lambda>j. Dtor (Some b, j)) [Suc i..<Suc i + n]" and
    l: "\<forall>q. load st' q = (if fst q = Some b \<and> Suc i \<le> snd q \<and> snd q < Suc i + n then None else load ?st1 q)"
    by blast
  have "destroy_n (Some b, i) (Suc n) st = Returns () st'"
    using Suc.prems r by (simp add: destroy_at_ok)
  moreover have "trace st' = trace st @ map (\<lambda>j. Dtor (Some b, j)) [i..<i + Suc n]"
    using t by (simp add: upt_conv_Cons del: upt_Suc)
  moreover have "\<forall>q. load st' q = (if fst q = Some b \<and> i \<le> snd q \<and> snd q < i + Suc n then None else load st q)"
  proof
    fix q :: ptr
    show "load st' q = (if fst q = Some b \<and> i \<le> snd q \<and> snd q < i + Suc n then None else load st q)"
      using l[rule_format, of q] Suc.prems by (cases q) (auto simp: load_store)
  qed
  ultimately show ?case using frame_step[OF f] by auto
qed

lemma uninit_copy_ok:
  assumes "s \<noteq> d"
  shows "so + k + n \<le> block_size st s \<Longrightarrow> dof + k + n \<le> block_size st d \<Longrightarrow>
   \<forall>j. so + k \<le> j \<and> j < so + k + n \<longrightarrow> (\<exists>x. load st (Some s, j) = Some x \<and> \<not> copy_throws T x) \<Longrightarrow>
   \<exists>st'. uninitialized_loop T ByCopy (Some s, so) (Some d, dof) k n st = Returns () st' \<and> frame st st'
      \<and> trace st' = trace st @ map (\<lambda>j. CopyCtor (Some d, dof + j) (the (load st (Some s, so + j)))) [k..<k + n]
      \<and> (\<forall>q. load st' q = (if fst q = Some d \<and> dof + k \<le> snd q \<and> snd q < dof + k + n
                            then load st (Some s, snd q - dof + so) else load st q))"
proof (induction n arbitrary: k st)
  case 0
  then show ?case by auto
next
  case (Suc n)
  obtain x where x: "load st (Some s, so + k) = Some x" "\<not> copy_throws T x"
    using Suc.prems(3)[rule_format, of "so + k"] by auto
  let ?p = "(Some d, dof + k)"
  let ?st1 = "log (CopyCtor ?p x) (store ?p (Some x) st)"
  have inp: "in_storage st ?p" using Suc.prems(2) by simp
  have ls: "\<And>j. load (store ?p (Some x) st) (Some s, j) = load st (Some s, j)"
    using assms by (simp add: load_store)
  have p1: "so + Suc k + n \<le> block_size ?st1 s" "dof + Suc k + n \<le> block_size ?st1 d"
    using Suc.prems by simp_all
  have p3: "\<forall>j. so + Suc k \<le> j \<and> j < so + Suc k + n \<longrightarrow> (\<exists>x. load ?st1 (Some s, j) = Some x \<and> \<not> copy_throws T x)"
    using Suc.prems(3) assms by (auto simp: load_store)
  from Suc.IH[OF p1 p3] obtain st' where
    r: "uninitialized_loop T ByCopy (Some s, so) (Some d, dof) (Suc k) n ?st1 = Returns () st'" and
    f: "frame ?st1 st'" and
    t: "trace st' = trace ?st1 @ map (\<lambda>j. CopyCtor (Some d, dof + j) (the (load ?st1 (Some s, so + j)))) [Suc k..<Suc k + n]" and
    l: "\<forall>q. load st' q = (if fst q = Some d \<and> dof + Suc k \<le> snd q \<and> snd q < dof + Suc k + n
                            then load ?st1 (Some s, snd q - dof + so) else load ?st1 q)"
    by blast
  have "uninitialized_loop T ByCopy (Some s, so) (Some d, dof) k (Suc n) st = Returns () st'"
    using r x inp by (simp add: construct_copy_ok read_operand_def)
  moreover have "trace st' = trace st @ map (\<lambda>j. CopyCtor (Some d, dof + j) (the (load st (Some s, so + j)))) [k..<k + Suc n]"
    using t x by (simp add: upt_conv_Cons ls del: upt_Suc)
  moreover have "\<forall>q. load st' q = (if fst q = Some d \<and> dof + k \<le> snd q \<and> snd q < dof + k + Suc n
                            then load st (Some s, snd q - dof + so) else load st q)"
  proof
    fix q :: ptr
    obtain qb qi where q: "q = (qb, qi)" by (cases q)
    show "load st' q = (if fst q = Some d \<and> dof + k \<le> snd q \<and> snd q < dof + k + Suc n
                            then load st (Some s, snd q - dof + so) else load st q)"
    proof (cases "qb = Some d \<and> qi = dof + k")
      case True
      then show ?thesis using l[rule_format, of q] x inp by (simp add: q load_store add.commute)
    next
      case False
      then show ?thesis using l[rule_format, of q] inp assms by (auto simp: q load_store)
    qed
  qed
  ultimately show ?case using frame_step[OF f] by auto
qed



lemma move_back_ok:
  "lo + n < block_size st b \<Longrightarrow>
   \<forall>j. lo \<le> j \<and> j < lo + n \<longrightarrow> load st (Some b, j) \<noteq> None \<Longrightarrow>
   \<exists>st'. move_back T (Some b, lo + n) (Some b, Suc (lo + n)) n st = Returns () st' \<and> frame st st'
      \<and> trace st' = trace st @ rev (map (\<lambda>j. MoveAsgn (Some b, Suc j) (the (load st (Some b, j)))) [lo..<lo + n])
      \<and> (\<forall>j. lo \<le> j \<and> j < lo + n \<longrightarrow> load st' (Some b, Suc j) = load st (Some b, j))
      \<and> (0 < n \<longrightarrow> load st' (Some b, lo) = map_option (moved_from T) (load st (Some b, lo)))
      \<and> (\<forall>q. \<not> (fst q = Some b \<and> lo \<le> snd q \<and> snd q \<le> lo + n \<and> 0 < n) \<longrightarrow> load st' q = load st q)"
proof (induction n arbitrary: st)
  case 0
  then show ?case by auto
next
  case (Suc n)
  obtain x where x: "load st (Some b, lo + n) = Some x"
    using Suc.prems(2)[rule_format, of "lo + n"] by auto
  let ?p = "(Some b, Suc (lo + n))"
  let ?q = "(Some b, lo + n)"
  let ?st0 = "store ?p (Some x) (store ?q (Some (moved_from T x)) st)"
  let ?st1 = "log (MoveAsgn ?p x) ?st0"
  have inp: "in_storage st ?p" "in_storage st ?q" using Suc.prems(1) by simp_all
  have l0: "\<And>q. load ?st0 q = (if q = ?p then Some x else if q = ?q then Some (moved_from T x) else load st q)"
    using inp by (simp add: load_store)
  have p1: "lo + n < block_size ?st1 b" using Suc.prems by simp
  have p3: "\<forall>j. lo \<le> j \<and> j < lo + n \<longrightarrow> load ?st1 (Some b, j) \<noteq> None"
    using Suc.prems(2) by (simp add: l0)
  from Suc.IH[OF p1 p3] obtain st' where
    r: "move_back T (Some b, lo + n) (Some b, Suc (lo + n)) n ?st1 = Returns () st'" and
    f: "frame ?st1 st'" and
    t: "trace st' = trace ?st1 @ rev (map (\<lambda>j. MoveAsgn (Some b, Suc j) (the (load ?st1 (Some b, j)))) [lo..<lo + n])" and
    l1: "\<forall>j. lo \<le> j \<and> j < lo + n \<longrightarrow> load st' (Some b, Suc j) = load ?st1 (Some b, j)" and
    l2: "0 < n \<longrightarrow> load st' (Some b, lo) = map_option (moved_from T) (load ?st1 (Some b, lo))" and
    l3: "\<forall>q. \<not> (fst q = Some b \<and> lo \<le> snd q \<and> snd q \<le> lo + n \<and> 0 < n) \<longrightarrow> load st' q = load ?st1 q"
    by blast
  have "move_back T (Some b, lo + Suc n) (Some b, Suc (lo + Suc n)) (Suc n) st = Returns () st'"
    using r x inp by (simp add: assign_move_elem_ok)
  moreover have "trace st' = trace st @ rev (map (\<lambda>j. MoveAsgn (Some b, Suc j) (the (load st (Some b, j)))) [lo..<lo + Suc n])"
    using t x by (simp add: l0)
  moreover have "\<forall>j. lo \<le> j \<and> j < lo + Suc n \<longrightarrow> load st' (Some b, Suc j) = load st (Some b, j)"
  proof (intro allI impI)
    fix j assume j: "lo \<le> j \<and> j < lo + Suc n"
    show "load st' (Some b, Suc j) = load st (Some b, j)"
    proof (cases "j = lo + n")
      case True
      then show ?thesis using l3[rule_format, of "(Some b, Suc (lo + n))"] x by (simp add: l0)
    next
      case False
      then have "j < lo + n" using j by simp
      then show ?thesis using l1[rule_format, of j] j by (simp add: l0)
    qed
  qed
  moreover have "load st' (Some b, lo) = map_option (moved_from T) (load st (Some b, lo))"
  proof (cases "n = 0")
    case True
    then show ?thesis using l3[rule_format, of "(Some b, lo)"] x l0[of "(Some b, lo)"] by simp
  next
    case False
    then show ?thesis using l2 by (simp add: l0)
  qed
  moreover have "\<forall>q. \<not> (fst q = Some b \<and> lo \<le> snd q \<and> snd q \<le> lo + Suc n \<and> 0 < Suc n) \<longrightarrow> load st' q = load st q"
  proof (intro allI impI)
    fix q :: ptr assume q: "\<not> (fst q = Some b \<and> lo \<le> snd q \<and> snd q \<le> lo + Suc n \<and> 0 < Suc n)"
    then have "load st' q = load ?st1 q" using l3[rule_format, of q] by auto
    also have "\<dots> = load st q" using q by (cases q) (auto simp: l0)
    finally show "load st' q = load st q" .
  qed
  ultimately show ?case using frame_step2[OF f] by auto
qed

lemma holds_size: "holds st this xs \<Longrightarrow> m_size (vecs st this) = length xs"
  by (simp add: holds_def)

lemma holds_le: "holds st this xs \<Longrightarrow> length xs \<le> m_capacity (m_data (vecs st this))"
  by (simp add: holds_def)

lemma holds_load:
  assumes "holds st this xs" "i < length xs"
  shows "load st (m_buffer (m_data (vecs st this)), i) = Some (xs ! i)"
proof -
  have "map (\<lambda>i. load st (m_buffer (m_data (vecs st this)), i)) [0..<length xs] ! i = map Some xs ! i"
    using assms(1) by (simp add: holds_def)
  then show ?thesis using assms(2) by simp
qed

lemma holds_null:
  "holds st this xs \<Longrightarrow> m_buffer (m_data (vecs st this)) = None \<Longrightarrow> m_capacity (m_data (vecs st this)) = 0 \<and> xs = []"
  by (auto simp: holds_def)

lemma holds_block:
  "holds st this xs \<Longrightarrow> m_buffer (m_data (vecs st this)) = Some b \<Longrightarrow>
     b < fresh st \<and> 0 < m_capacity (m_data (vecs st this)) \<and> block_size st b = m_capacity (m_data (vecs st this))"
  by (auto simp: holds_def)

lemma holds_buffer:
  "holds st this xs \<Longrightarrow> 0 < m_capacity (m_data (vecs st this)) \<Longrightarrow>
     \<exists>b. m_buffer (m_data (vecs st this)) = Some b \<and> b < fresh st \<and> block_size st b = m_capacity (m_data (vecs st this))"
  by (cases "m_buffer (m_data (vecs st this))") (auto simp: holds_def)

lemma holdsI:
  assumes "m_size (vecs st this) = length xs" "length xs \<le> m_capacity (m_data (vecs st this))"
    "m_buffer (m_data (vecs st this)) = Some b" "b < fresh st" "0 < m_capacity (m_data (vecs st this))"
    "block_size st b = m_capacity (m_data (vecs st this))"
    "\<And>i. i < length xs \<Longrightarrow> load st (Some b, i) = Some (xs ! i)"
  shows "holds st this xs"
proof -
  have "map (\<lambda>i. load st (Some b, i)) [0..<length xs] = map Some xs"
    using assms(7) by (intro nth_equalityI) simp_all
  then show ?thesis using assms(1-6) by (simp add: holds_def)
qed

lemma RawMemory_new_ok:
  "n \<noteq> 0 \<Longrightarrow>
   \<exists>st1. RawMemory_new n st = Returns \<lparr>m_buffer = Some (fresh st), m_capacity = n\<rparr> st1
      \<and> vecs st1 = vecs st \<and> fresh st1 = Suc (fresh st) \<and> trace st1 = trace st @ [Alloc (fresh st) n]
      \<and> (\<forall>c. block_size st1 c = (if c = fresh st then n else block_size st c))
      \<and> (\<forall>q. load st1 q = (if fst q = Some (fresh st) then None else load st q))"
  by (auto simp: RawMemory_new_def Allocate_def block_size_def load_def split: option.splits)


lemma Deallocate_None [simp]: "Deallocate None st = st"
  by (simp add: Deallocate_def)

lemma relocate_zero [simp]: "relocate T p 0 q st = Returns () st"
  by (simp add: relocate_def uninitialized_copy_n_def uninitialized_move_n_def)














lemma holds_three_state: "holds three_state 0 [1, 2, 3]"
  by (simp add: holds_def three_state_def block_size_def load_def upt_rec)









lemma construct_tmp_ok:
  assumes "a = ByCopy s \<and> read_operand st s = Some x \<and> \<not> copy_throws T x \<or> a = ByMove (External x)"
  shows "construct_tmp T a st = Returns x (log (TmpCtor x) st)"
  using assms by (auto simp: construct_tmp_def copy_value_def move_value_def read_operand_def)

lemma Emplace_shift_ok:
  assumes h: "holds st this xs"
    and room: "length xs < m_capacity (m_data (vecs st this))"
    and i: "i < length xs"
    and buf: "m_buffer (m_data (vecs st this)) = Some b"
    and a: "a = ByCopy s \<and> read_operand st s = Some x \<and> \<not> copy_throws T x \<or> a = ByMove (External x)"
  shows "\<exists>st'. Emplace_shift T this i a st = Returns (Some b, i) st'
      \<and> vecs st' = (vecs st)(this := (vecs st this)\<lparr>m_size := length xs + 1\<rparr>)
      \<and> fresh st' = fresh st \<and> (\<forall>c. block_size st' c = block_size st c)
      \<and> trace st' = trace st @ [TmpCtor x, MoveCtor (Some b, length xs) (xs ! (length xs - 1))]
            @ rev (map (\<lambda>j. MoveAsgn (Some b, Suc j) (xs ! j)) [i..<length xs - 1])
            @ [MoveAsgn (Some b, i) x, TmpDtor]
      \<and> (\<forall>j<i. load st' (Some b, j) = Some (xs ! j))
      \<and> load st' (Some b, i) = Some x
      \<and> (\<forall>j. i \<le> j \<and> j < length xs \<longrightarrow> load st' (Some b, Suc j) = Some (xs ! j))
      \<and> (\<forall>q. fst q \<noteq> Some b \<or> length xs < snd q \<longrightarrow> load st' q = load st q)"
proof -
  let ?v = "vecs st this"
  let ?n = "length xs"
  obtain m where n: "?n = Suc (i + m)" using i less_iff_Suc_add by auto
  let ?e = "i + m"
  have sz: "m_size ?v = Suc ?e" using holds_size[OF h] n by simp
  have room': "Suc ?e < m_capacity (m_data ?v)" using room n by simp
  have bs: "block_size st b = m_capacity (m_data ?v)" using holds_block[OF h buf] by simp
  have ld: "\<And>j. j \<le> ?e \<Longrightarrow> load st (Some b, j) = Some (xs ! j)"
    using holds_load[OF h] buf n by simp
  let ?x = "xs ! ?e"
  let ?st1 = "log (TmpCtor x) st"
  have t1: "construct_tmp T a st = Returns x ?st1" using a by (rule construct_tmp_ok)
  \<comment> \<open>the last element moves into the free slot\<close>
  let ?p = "(Some b, Suc ?e)"
  let ?q = "(Some b, ?e)"
  let ?st3' = "store ?p (Some ?x) (store ?q (Some (moved_from T ?x)) st)"
  let ?st3 = "log (MoveCtor ?p ?x) (store ?p (Some ?x) (store ?q (Some (moved_from T ?x)) ?st1))"
  have inp: "in_storage ?st1 ?p" "in_storage ?st1 ?q" "in_storage st ?p" "in_storage st ?q"
    using room' bs by simp_all
  have lq: "load ?st1 ?q = Some ?x" using ld[of ?e] by simp
  have c: "construct T ?p (ByMove (Element ?q)) ?st1 = Returns () ?st3"
    using inp(1) lq by (rule construct_move_elem_ok)
  have l3: "\<And>r. load ?st3 r = (if r = ?p then Some ?x else if r = ?q then Some (moved_from T ?x) else load st r)"
    using inp by (simp add: load_store)
  \<comment> \<open>the range from the position to the last but one moves one slot right\<close>
  have s1: "i + m < block_size ?st3 b" using room' bs by simp
  have s2: "\<forall>j. i \<le> j \<and> j < i + m \<longrightarrow> load ?st3 (Some b, j) \<noteq> None"
  proof (intro allI impI)
    fix j assume "i \<le> j \<and> j < i + m"
    then have "j \<le> ?e" "j \<noteq> Suc ?e" "j \<noteq> ?e" by auto
    then show "load ?st3 (Some b, j) \<noteq> None" using ld[of j] l3[of "(Some b, j)"] by simp
  qed
  from move_back_ok[OF s1 s2, of T] obtain st4 where
    r4: "move_back T (Some b, i + m) (Some b, Suc (i + m)) m ?st3 = Returns () st4" and
    f4: "frame ?st3 st4" and
    t4: "trace st4 = trace ?st3 @ rev (map (\<lambda>j. MoveAsgn (Some b, Suc j) (the (load ?st3 (Some b, j)))) [i..<i + m])" and
    l4a: "\<forall>j. i \<le> j \<and> j < i + m \<longrightarrow> load st4 (Some b, Suc j) = load ?st3 (Some b, j)" and
    l4b: "0 < m \<longrightarrow> load st4 (Some b, i) = map_option (moved_from T) (load ?st3 (Some b, i))" and
    l4c: "\<forall>q. \<not> (fst q = Some b \<and> i \<le> snd q \<and> snd q \<le> i + m \<and> 0 < m) \<longrightarrow> load st4 q = load ?st3 q"
    by (elim exE conjE)
  have sr: "shift_right T ?v i ?st1 = Returns () st4"
    using c r4 room' sz buf
    by (simp add: shift_right_def RawMemory_plus_def RawMemory_at_def assert_def move_backward_def ptr_diff_def)
  \<comment> \<open>the temporary is assigned to the position\<close>
  have fr4: "frame st st4"
  proof -
    have "frame st ?st3" by (simp add: frame_def)
    then show ?thesis using f4 by (rule frame_trans)
  qed
  have ini: "in_storage st4 (Some b, i)" using frameD(3)[OF fr4, of b] room' bs by simp
  let ?st5 = "log (MoveAsgn (Some b, i) x) (store (Some b, i) (Some x) st4)"
  have as: "assign T (Some b, i) (ByMove (External x)) st4 = Returns () ?st5"
    using ini by (rule assign_move_ext_ok)
  let ?st' = "log TmpDtor (inc_size this ?st5)"
  have l5: "\<And>r. load ?st' r = (if r = (Some b, i) then Some x else load st4 r)"
    using ini by (simp add: load_store inc_size_def)
  have g: "Emplace_shift T this i a st = Returns (Some b, i) ?st'"
    using t1 sr as room' sz buf
    by (simp add: Emplace_shift_def Let_def RawMemory_plus_def RawMemory_at_def assert_def)
  have A: "vecs ?st' = (vecs st)(this := ?v\<lparr>m_size := ?n + 1\<rparr>)"
    using frameD(1)[OF fr4] sz n by (simp add: inc_size_def)
  have B: "fresh ?st' = fresh st" "\<forall>c. block_size ?st' c = block_size st c"
    using frameD(2,3)[OF fr4] by (simp_all add: inc_size_def)
  have mp: "map (\<lambda>j. MoveAsgn (Some b, Suc j) (the (load ?st3 (Some b, j)))) [i..<?e]
          = map (\<lambda>j. MoveAsgn (Some b, Suc j) (xs ! j)) [i..<?e]"
  proof (rule map_cong[OF refl])
    fix j assume "j \<in> set [i..<?e]"
    then have "j \<le> ?e" "j \<noteq> Suc ?e" "j \<noteq> ?e" by auto
    then show "MoveAsgn (Some b, Suc j) (the (load ?st3 (Some b, j))) = MoveAsgn (Some b, Suc j) (xs ! j)"
      using ld[of j] l3[of "(Some b, j)"] by simp
  qed
  have C: "trace ?st' = trace st @ [TmpCtor x, MoveCtor (Some b, ?n) (xs ! (?n - 1))]
            @ rev (map (\<lambda>j. MoveAsgn (Some b, Suc j) (xs ! j)) [i..<?n - 1])
            @ [MoveAsgn (Some b, i) x, TmpDtor]"
    using t4 mp n by (simp add: inc_size_def)
  have D: "\<forall>j<i. load ?st' (Some b, j) = Some (xs ! j)"
  proof (intro allI impI)
    fix j assume j: "j < i"
    then have jn: "j \<le> ?e" "j \<noteq> Suc ?e" "j \<noteq> ?e" "j \<noteq> i" by auto
    have "load ?st' (Some b, j) = load st4 (Some b, j)" using jn l5[of "(Some b, j)"] by simp
    also have "\<dots> = load ?st3 (Some b, j)" using l4c[rule_format, of "(Some b, j)"] j by simp
    also have "\<dots> = Some (xs ! j)" using ld[of j] jn l3[of "(Some b, j)"] by simp
    finally show "load ?st' (Some b, j) = Some (xs ! j)" .
  qed
  have E: "load ?st' (Some b, i) = Some x" using l5[of "(Some b, i)"] by simp
  have F: "\<forall>j. i \<le> j \<and> j < ?n \<longrightarrow> load ?st' (Some b, Suc j) = Some (xs ! j)"
  proof (intro allI impI)
    fix j assume j: "i \<le> j \<and> j < ?n"
    have s: "load ?st' (Some b, Suc j) = load st4 (Some b, Suc j)" using j l5[of "(Some b, Suc j)"] by simp
    show "load ?st' (Some b, Suc j) = Some (xs ! j)"
    proof (cases "j = ?e")
      case True
      have "load st4 (Some b, Suc ?e) = load ?st3 (Some b, Suc ?e)"
        using l4c[rule_format, of "(Some b, Suc ?e)"] by simp
      also have "\<dots> = Some ?x" using l3[of "(Some b, Suc ?e)"] by simp
      finally show ?thesis using s True by simp
    next
      case False
      then have jj: "i \<le> j \<and> j < i + m" "j \<le> ?e" "j \<noteq> Suc ?e" "j \<noteq> ?e" using j n by auto
      have "load st4 (Some b, Suc j) = load ?st3 (Some b, j)" using l4a[rule_format, OF jj(1)] .
      also have "\<dots> = Some (xs ! j)" using ld[of j] jj l3[of "(Some b, j)"] by simp
      finally show ?thesis using s by simp
    qed
  qed
  have G: "\<forall>q. fst q \<noteq> Some b \<or> ?n < snd q \<longrightarrow> load ?st' q = load st q"
  proof (intro allI impI)
    fix q :: ptr assume q: "fst q \<noteq> Some b \<or> ?n < snd q"
    have ne: "q \<noteq> (Some b, i)" "q \<noteq> ?p" "q \<noteq> ?q" using q n by auto
    have nr: "\<not> (fst q = Some b \<and> i \<le> snd q \<and> snd q \<le> i + m \<and> 0 < m)" using q n by auto
    have "load ?st' q = load st4 q" using ne l5[of q] by simp
    also have "\<dots> = load ?st3 q" using l4c[rule_format, OF nr] .
    also have "\<dots> = load st q" using ne l3[of q] by simp
    finally show "load ?st' q = load st q" .
  qed
  show ?thesis
    by (intro exI[of _ ?st'] conjI g A B C D E F G)
qed

lemma nth_inserted:
  assumes "i \<le> length xs" "j \<le> length xs"
  shows "(take i xs @ x # drop i xs) ! j = (if j < i then xs ! j else if j = i then x else xs ! (j - 1))"
proof -
  have l: "length (take i xs) = i" using assms(1) by simp
  show ?thesis
  proof (cases "j < i")
    case True
    then show ?thesis using l by (simp add: nth_append)
  next
    case False
    then obtain d where d: "j = i + d" using le_Suc_ex not_less by blast
    show ?thesis
    proof (cases d)
      case 0
      then show ?thesis using d l by (simp add: nth_append)
    next
      case (Suc d')
      then show ?thesis using d l assms by (simp add: nth_append)
    qed
  qed
qed


lemma Emplace_interior:
  assumes "m_size (vecs st this) = n" "i < n"
  shows "Emplace T this (ptr_add (begin_it (vecs st this)) i) a st =
     (if n = m_capacity (m_data (vecs st this)) then Emplace_grow T this i a st
      else Emplace_shift T this i a st)"
  using assms by (simp add: Emplace_def Let_def ptr_diff_def begin_it_def end_it_def GetAddress_def)


lemma holds_inserted:
  assumes i: "i \<le> length xs"
    and sz: "m_size (vecs st' this) = length xs + 1"
    and cap: "length xs + 1 \<le> m_capacity (m_data (vecs st' this))"
    and buf: "m_buffer (m_data (vecs st' this)) = Some b" "b < fresh st'"
      "block_size st' b = m_capacity (m_data (vecs st' this))"
    and l1: "\<forall>j<i. load st' (Some b, j) = Some (xs ! j)"
    and l2: "load st' (Some b, i) = Some x"
    and l3: "\<forall>j. i \<le> j \<and> j < length xs \<longrightarrow> load st' (Some b, Suc j) = Some (xs ! j)"
  shows "holds st' this (take i xs @ x # drop i xs)"
proof (rule holdsI[where b = b])
  let ?ys = "take i xs @ x # drop i xs"
  have len: "length ?ys = length xs + 1" using i by simp
  fix j assume "j < length ?ys"
  then have j: "j \<le> length xs" using len by simp
  have nth: "?ys ! j = (if j < i then xs ! j else if j = i then x else xs ! (j - 1))"
    using nth_inserted[OF i j] .
  show "load st' (Some b, j) = Some (?ys ! j)"
  proof (cases "j < i")
    case True
    then show ?thesis using l1 nth by simp
  next
    case False
    show ?thesis
    proof (cases "j = i")
      case True
      then show ?thesis using l2 nth by simp
    next
      case False
      then obtain j' where j': "j = Suc j'" "i \<le> j'" "j' < length xs"
        using \<open>\<not> j < i\<close> j by (cases j) auto
      then show ?thesis using l3[rule_format, of j'] nth by simp
    qed
  qed
qed (use i sz cap buf in \<open>auto\<close>)



text \<open>
  Claim C10.  \<open>Insert\<close> at an interior position of a vector with room left, the value
  being a reference to element \<open>k\<close> of the same vector: the first thing the call does is
  to construct the temporary, from the value element \<open>k\<close> has before anything is moved;
  then the last element is move-constructed into the free slot, the range is
  move-assigned one slot to the right, back to front, and the temporary is move-assigned
  to the position.  The vector then holds \<open>xs\<close> with the former value of element \<open>k\<close>
  inserted before position \<open>i\<close>.
\<close>

theorem insert_own_element_in_place:
  assumes "holds st this xs" and "length xs < Capacity st this"
    and "i < length xs" and "k < length xs" and "\<not> copy_throws T (xs ! k)"
  shows "\<exists>st'. Insert T this (ptr_add (begin_it (vecs st this)) i)
                  (Element (ptr_add (begin_it (vecs st this)) k)) st
                 = Returns (ptr_add (begin_it (vecs st' this)) i) st'
      \<and> holds st' this (take i xs @ xs ! k # drop i xs)
      \<and> trace st' = trace st @ [TmpCtor (xs ! k), MoveCtor (end_it (vecs st this)) (last xs)]
            @ rev (map (\<lambda>j. MoveAsgn (ptr_add (begin_it (vecs st this)) (Suc j)) (xs ! j)) [i..<length xs - 1])
            @ [MoveAsgn (ptr_add (begin_it (vecs st this)) i) (xs ! k), TmpDtor]"
proof -
  let ?v = "vecs st this"
  have h: "holds st this xs" by fact
  have room: "length xs < m_capacity (m_data ?v)" using assms(2) by (simp add: Capacity_def)
  then have "0 < m_capacity (m_data ?v)" by simp
  from holds_buffer[OF h this] obtain b where
    buf: "m_buffer (m_data ?v) = Some b" and bf: "b < fresh st" and bs: "block_size st b = m_capacity (m_data ?v)"
    by (elim exE conjE)
  have rd: "read_operand st (Element (Some b, k)) = Some (xs ! k)"
    using holds_load[OF h assms(4)] buf by (simp add: read_operand_def)
  have a: "ByCopy (Element (Some b, k)) = ByCopy (Element (Some b, k))
             \<and> read_operand st (Element (Some b, k)) = Some (xs ! k) \<and> \<not> copy_throws T (xs ! k)
           \<or> ByCopy (Element (Some b, k)) = ByMove (External (xs ! k))"
    using rd assms(5) by simp
  from Emplace_shift_ok[OF h room assms(3) buf a] obtain st' where
    g: "Emplace_shift T this i (ByCopy (Element (Some b, k))) st = Returns (Some b, i) st'" and
    v: "vecs st' = (vecs st)(this := ?v\<lparr>m_size := length xs + 1\<rparr>)" and
    f: "fresh st' = fresh st" "\<forall>c. block_size st' c = block_size st c" and
    t: "trace st' = trace st @ [TmpCtor (xs ! k), MoveCtor (Some b, length xs) (xs ! (length xs - 1))]
            @ rev (map (\<lambda>j. MoveAsgn (Some b, Suc j) (xs ! j)) [i..<length xs - 1])
            @ [MoveAsgn (Some b, i) (xs ! k), TmpDtor]" and
    l1: "\<forall>j<i. load st' (Some b, j) = Some (xs ! j)" and
    l2: "load st' (Some b, i) = Some (xs ! k)" and
    l3: "\<forall>j. i \<le> j \<and> j < length xs \<longrightarrow> load st' (Some b, Suc j) = Some (xs ! j)"
    by (elim exE conjE)
  have il: "i \<le> length xs" using assms(3) by simp
  have hh: "holds st' this (take i xs @ xs ! k # drop i xs)"
  proof (rule holds_inserted[OF il _ _ _ _ _ l1 l2 l3])
    show "m_size (vecs st' this) = length xs + 1" using v by simp
    show "length xs + 1 \<le> m_capacity (m_data (vecs st' this))" using v room by simp
    show "m_buffer (m_data (vecs st' this)) = Some b" using v buf by simp
    show "b < fresh st'" using f bf by simp
    show "block_size st' b = m_capacity (m_data (vecs st' this))" using v f bs by simp
  qed
  have ne: "xs \<noteq> []" using assms(3) by auto
  have ei: "Emplace T this (ptr_add (begin_it ?v) i) (ByCopy (Element (Some b, k))) st
              = Emplace_shift T this i (ByCopy (Element (Some b, k))) st"
    using Emplace_interior[OF holds_size[OF h] assms(3), of T "ByCopy (Element (Some b, k))"] room by simp
  have pk: "ptr_add (begin_it ?v) k = (Some b, k)" using buf by (simp add: begin_it_def GetAddress_def)
  have rp: "ptr_add (begin_it (vecs st' this)) i = (Some b, i)"
    using v buf by (simp add: begin_it_def GetAddress_def)
  have e: "Insert T this (ptr_add (begin_it ?v) i) (Element (ptr_add (begin_it ?v) k)) st
             = Returns (ptr_add (begin_it (vecs st' this)) i) st'"
    by (simp only: Insert_def pk ei g rp)
  have tt: "trace st' = trace st @ [TmpCtor (xs ! k), MoveCtor (end_it ?v) (last xs)]
            @ rev (map (\<lambda>j. MoveAsgn (ptr_add (begin_it ?v) (Suc j)) (xs ! j)) [i..<length xs - 1])
            @ [MoveAsgn (ptr_add (begin_it ?v) i) (xs ! k), TmpDtor]"
    using t buf holds_size[OF h] ne by (simp add: begin_it_def end_it_def GetAddress_def last_conv_nth)
  show ?thesis
    by (intro exI[of _ st'] conjI e hh tt)
qed

theorem insert_own_element_in_place_witness:
  "holds three_state 0 [1, 2, 3] \<and> length [1, 2, 3 :: nat] < Capacity three_state 0
   \<and> \<not> copy_throws throwing_copy ([1, 2, 3] ! 2)
   \<and> (\<exists>st'. Insert throwing_copy 0 (ptr_add (begin_it (vecs three_state 0)) 0)
                (Element (ptr_add (begin_it (vecs three_state 0)) 2)) three_state
               = Returns (ptr_add (begin_it (vecs st' 0)) 0) st'
        \<and> holds st' 0 [3, 1, 2, 3])"
proof -
  have r: "length [1, 2, 3 :: nat] < Capacity three_state 0"
    by (simp add: Capacity_def three_state_def)
  have i: "(0 :: nat) < length [1, 2, 3 :: nat]" and k: "(2 :: nat) < length [1, 2, 3 :: nat]" by simp_all
  have c: "\<not> copy_throws throwing_copy ([1, 2, 3] ! 2)" by (simp add: throwing_copy_def)
  from insert_own_element_in_place[OF holds_three_state r i k c]
  have "\<exists>st'. Insert throwing_copy 0 (ptr_add (begin_it (vecs three_state 0)) 0)
                (Element (ptr_add (begin_it (vecs three_state 0)) 2)) three_state
               = Returns (ptr_add (begin_it (vecs st' 0)) 0) st'
        \<and> holds st' 0 (take 0 [1, 2, 3] @ [1, 2, 3] ! 2 # drop 0 [1, 2, 3])"
    by (elim exE conjE, intro exI conjI)
  then obtain st' where
    e: "Insert throwing_copy 0 (ptr_add (begin_it (vecs three_state 0)) 0)
                (Element (ptr_add (begin_it (vecs three_state 0)) 2)) three_state
               = Returns (ptr_add (begin_it (vecs st' 0)) 0) st'" and
    h: "holds st' 0 (take 0 [1, 2, 3] @ [1, 2, 3] ! 2 # drop 0 [1, 2, 3])"
    by (elim exE conjE)
  have h': "holds st' 0 [3, 1, 2, 3]" using h by simp
  show ?thesis
    by (intro conjI exI[of _ st'] holds_three_state r c e h')
qed

lemma assign_prefix_ok:
  assumes sd: "s \<noteq> d" and bd: "m_buffer rd = Some d" and bs: "m_buffer rs = Some s"
  shows "i + n \<le> m_capacity rd \<Longrightarrow> i + n \<le> m_capacity rs \<Longrightarrow>
   i + n \<le> block_size st d \<Longrightarrow> i + n \<le> block_size st s \<Longrightarrow>
   \<forall>j. i \<le> j \<and> j < i + n \<longrightarrow> (\<exists>x. load st (Some s, j) = Some x \<and> \<not> copy_assign_throws T x) \<Longrightarrow>
   \<exists>st'. assign_prefix T rd rs i n st = Returns () st' \<and> frame st st'
      \<and> trace st' = trace st @ map (\<lambda>j. CopyAsgn (Some d, j) (the (load st (Some s, j)))) [i..<i + n]
      \<and> (\<forall>q. load st' q = (if fst q = Some d \<and> i \<le> snd q \<and> snd q < i + n
                            then load st (Some s, snd q) else load st q))"
proof (induction n arbitrary: i st)
  case 0
  then show ?case by auto
next
  case (Suc n)
  obtain x where x: "load st (Some s, i) = Some x" "\<not> copy_assign_throws T x"
    using Suc.prems(5)[rule_format, of i] by auto
  let ?p = "(Some d, i)"
  let ?st1 = "log (CopyAsgn ?p x) (store ?p (Some x) st)"
  have inp: "in_storage st ?p" using Suc.prems(3) by simp
  have l1: "\<And>q. load ?st1 q = (if q = ?p then Some x else load st q)"
    using inp by (simp add: load_store)
  have p: "Suc i + n \<le> m_capacity rd" "Suc i + n \<le> m_capacity rs"
    "Suc i + n \<le> block_size ?st1 d" "Suc i + n \<le> block_size ?st1 s"
    using Suc.prems(1-4) by simp_all
  have p5: "\<forall>j. Suc i \<le> j \<and> j < Suc i + n \<longrightarrow> (\<exists>x. load ?st1 (Some s, j) = Some x \<and> \<not> copy_assign_throws T x)"
  proof (intro allI impI)
    fix j assume j: "Suc i \<le> j \<and> j < Suc i + n"
    then have "i \<le> j \<and> j < i + Suc n" by simp
    from Suc.prems(5)[rule_format, OF this] sd
    show "\<exists>x. load ?st1 (Some s, j) = Some x \<and> \<not> copy_assign_throws T x"
      using l1[of "(Some s, j)"] by simp
  qed
  from Suc.IH[OF p p5] obtain st' where
    r: "assign_prefix T rd rs (Suc i) n ?st1 = Returns () st'" and
    f: "frame ?st1 st'" and
    t: "trace st' = trace ?st1 @ map (\<lambda>j. CopyAsgn (Some d, j) (the (load ?st1 (Some s, j)))) [Suc i..<Suc i + n]" and
    l: "\<forall>q. load st' q = (if fst q = Some d \<and> Suc i \<le> snd q \<and> snd q < Suc i + n
                            then load ?st1 (Some s, snd q) else load ?st1 q)"
    by (elim exE conjE)
  have a: "assign T ?p (ByCopy (Element (Some s, i))) st = Returns () ?st1"
    using inp x by (rule assign_copy_elem_ok)
  have "assign_prefix T rd rs i (Suc n) st = Returns () st'"
    using r a Suc.prems(1,2) bd bs by (simp add: RawMemory_at_def assert_def)
  moreover have "trace st' = trace st @ map (\<lambda>j. CopyAsgn (Some d, j) (the (load st (Some s, j)))) [i..<i + Suc n]"
  proof -
    have "map (\<lambda>j. CopyAsgn (Some d, j) (the (load ?st1 (Some s, j)))) [Suc i..<Suc i + n]
        = map (\<lambda>j. CopyAsgn (Some d, j) (the (load st (Some s, j)))) [Suc i..<Suc i + n]"
      using sd by (intro map_cong[OF refl]) (simp add: load_store)
    then show ?thesis using t x by (simp add: upt_conv_Cons del: upt_Suc)
  qed
  moreover have "\<forall>q. load st' q = (if fst q = Some d \<and> i \<le> snd q \<and> snd q < i + Suc n
                            then load st (Some s, snd q) else load st q)"
  proof
    fix q :: ptr
    obtain qb qi where q: "q = (qb, qi)" by (cases q)
    have ls: "\<And>j. load ?st1 (Some s, j) = load st (Some s, j)" using sd l1 by simp
    show "load st' q = (if fst q = Some d \<and> i \<le> snd q \<and> snd q < i + Suc n
                            then load st (Some s, snd q) else load st q)"
    proof (cases "q = ?p")
      case True
      then show ?thesis using l[rule_format, of q] x l1[of q] by simp
    next
      case False
      then show ?thesis using l[rule_format, of q] l1[of q] ls[of qi] q by auto
    qed
  qed
  ultimately show ?case using frame_step[OF f] by (intro exI[of _ st'] conjI)
qed

lemma holds_other:
  assumes "holds st w ys" "vecs st' w = vecs st w" "fresh st \<le> fresh st'"
    "\<forall>c. block_size st' c = block_size st c"
    "\<And>j. j < length ys \<Longrightarrow> load st' (m_buffer (m_data (vecs st w)), j) = load st (m_buffer (m_data (vecs st w)), j)"
  shows "holds st' w ys"
proof (cases "m_buffer (m_data (vecs st w))")
  case None
  then show ?thesis using assms(1,2) by (auto simp: holds_def)
next
  case (Some b)
  show ?thesis
  proof (rule holdsI[where b = b])
    fix j assume j: "j < length ys"
    show "load st' (Some b, j) = Some (ys ! j)"
      using assms(5)[OF j] holds_load[OF assms(1) j] Some by simp
  qed (use assms(2,3,4) holds_size[OF assms(1)] holds_le[OF assms(1)] holds_block[OF assms(1) Some] Some in \<open>auto\<close>)
qed

lemma copy_assign_reuse_empty:
  assumes ne: "this \<noteq> rhs" and ha: "holds st this xs" and hb: "holds st rhs []"
    and sep: "m_buffer (m_data (vecs st this)) \<noteq> m_buffer (m_data (vecs st rhs)) \<or> m_buffer (m_data (vecs st rhs)) = None"
  shows "\<exists>st'. copy_assign T this rhs st = Returns () st' \<and> holds st' this [] \<and> holds st' rhs []
      \<and> m_data (vecs st' this) = m_data (vecs st this)
      \<and> trace st' = trace st @ map (\<lambda>j. Dtor (m_buffer (m_data (vecs st this)), j)) [0..<length xs]"
proof -
  let ?a = "vecs st this"
  let ?b = "vecs st rhs"
  have sa: "m_size ?a = length xs" using ha by (rule holds_size)
  have sb: "m_size ?b = 0" using holds_size[OF hb] by simp
  show ?thesis
  proof (cases "length xs = 0")
    case True
    let ?st' = "set_vec this (?a\<lparr>m_size := 0\<rparr>) st"
    have c: "copy_assign T this rhs st = Returns () ?st'"
      using ne sa sb True by (simp add: copy_assign_def Let_def)
    have h1: "holds ?st' this []" using ha True by (auto simp: holds_def split: option.splits)
    have h2: "holds ?st' rhs []" using hb ne by (auto simp: holds_def split: option.splits)
    show ?thesis unfolding c using h1 h2 True by simp
  next
    case False
    then have "0 < m_capacity (m_data ?a)" using holds_le[OF ha] by (cases xs) auto
    from holds_buffer[OF ha this] obtain d where
      buf: "m_buffer (m_data ?a) = Some d" and df: "d < fresh st" and ds: "block_size st d = m_capacity (m_data ?a)"
      by (elim exE conjE)
    have s: "0 + length xs \<le> block_size st d" using holds_le[OF ha] ds by simp
    from destroy_n_ok[OF s] obtain st2 where
      r: "destroy_n (Some d, 0) (length xs) st = Returns () st2" and
      f: "frame st st2" and
      t: "trace st2 = trace st @ map (\<lambda>j. Dtor (Some d, j)) [0..<0 + length xs]" and
      l: "\<forall>q. load st2 q = (if fst q = Some d \<and> 0 \<le> snd q \<and> snd q < 0 + length xs then None else load st q)"
      by (elim exE conjE)
    let ?st' = "set_vec this (?a\<lparr>m_size := 0\<rparr>) st2"
    have c: "copy_assign T this rhs st = Returns () ?st'"
      using ne sa sb r buf by (simp add: copy_assign_def Let_def GetAddress_def)
    have h1: "holds ?st' this []"
      using ha buf frameD[OF f] by (auto simp: holds_def)
    have h2: "holds ?st' rhs []"
      using hb ne frameD[OF f] by (auto simp: holds_def split: option.splits)
    have v: "m_data (vecs ?st' this) = m_data ?a" by simp
    have tt: "trace ?st' = trace st @ map (\<lambda>j. Dtor (m_buffer (m_data ?a), j)) [0..<length xs]"
      using t buf by simp
    show ?thesis
      by (intro exI[of _ ?st'] conjI c h1 h2 v tt)
  qed
qed

lemma map_upt_shift: "map f [a..<a + n] = map (\<lambda>j. f (a + j)) [0..<n]"
proof -
  have "[a..<a + n] = map (\<lambda>j. a + j) [0..<n]"
    by (induction n) simp_all
  then show ?thesis by (simp add: comp_def)
qed

lemma copy_assign_reuse_nonempty:
  assumes ne: "this \<noteq> rhs" and ha: "holds st this xs" and hb: "holds st rhs ys"
    and bd: "m_buffer (m_data (vecs st this)) = Some d" and bs: "m_buffer (m_data (vecs st rhs)) = Some s"
    and sd: "s \<noteq> d"
    and fit: "length ys \<le> m_capacity (m_data (vecs st this))"
    and nt: "\<forall>y\<in>set ys. \<not> copy_assign_throws T y \<and> \<not> copy_throws T y"
  shows "\<exists>st'. copy_assign T this rhs st = Returns () st' \<and> holds st' this ys \<and> holds st' rhs ys
      \<and> m_data (vecs st' this) = m_data (vecs st this)
      \<and> trace st' = trace st @ map (\<lambda>j. CopyAsgn (Some d, j) (ys ! j)) [0..<min (length xs) (length ys)]
            @ map (\<lambda>j. CopyCtor (Some d, j) (ys ! j)) [length xs..<length ys]
            @ map (\<lambda>j. Dtor (Some d, j)) [length ys..<length xs]"
proof -
  let ?a = "vecs st this"
  let ?b = "vecs st rhs"
  let ?nx = "length xs"
  let ?ny = "length ys"
  let ?m = "min ?nx ?ny"
  have sa: "m_size ?a = ?nx" using ha by (rule holds_size)
  have sb: "m_size ?b = ?ny" using hb by (rule holds_size)
  have ca: "?nx \<le> m_capacity (m_data ?a)" using ha by (rule holds_le)
  have cb: "?ny \<le> m_capacity (m_data ?b)" using hb by (rule holds_le)
  have da: "block_size st d = m_capacity (m_data ?a)" "d < fresh st" using holds_block[OF ha bd] by simp_all
  have cpos: "0 < m_capacity (m_data ?a)" using holds_block[OF ha bd] by simp
  have db: "block_size st s = m_capacity (m_data ?b)" "s < fresh st" using holds_block[OF hb bs] by simp_all
  have ls: "\<And>j. j < ?ny \<Longrightarrow> load st (Some s, j) = Some (ys ! j)"
    using holds_load[OF hb] bs by simp
  have ok: "\<And>j. j < ?ny \<Longrightarrow> \<not> copy_assign_throws T (ys ! j) \<and> \<not> copy_throws T (ys ! j)"
    using nt by simp
  have nocap: "\<not> m_capacity (m_data ?a) < ?ny" using fit by simp
  \<comment> \<open>the common prefix is assigned\<close>
  have p: "0 + ?m \<le> m_capacity (m_data ?a)" "0 + ?m \<le> m_capacity (m_data ?b)"
    "0 + ?m \<le> block_size st d" "0 + ?m \<le> block_size st s"
    using ca cb da db by simp_all
  have p5: "\<forall>j. 0 \<le> j \<and> j < 0 + ?m \<longrightarrow> (\<exists>x. load st (Some s, j) = Some x \<and> \<not> copy_assign_throws T x)"
  proof (intro allI impI)
    fix j assume "0 \<le> j \<and> j < 0 + ?m"
    then have "j < ?ny" by simp
    then show "\<exists>x. load st (Some s, j) = Some x \<and> \<not> copy_assign_throws T x"
      using ls[of j] ok[of j] by simp
  qed
  from assign_prefix_ok[OF sd bd bs p p5] obtain st1 where
    r1: "assign_prefix T (m_data ?a) (m_data ?b) 0 ?m st = Returns () st1" and
    f1: "frame st st1" and
    t1: "trace st1 = trace st @ map (\<lambda>j. CopyAsgn (Some d, j) (the (load st (Some s, j)))) [0..<0 + ?m]" and
    l1: "\<forall>q. load st1 q = (if fst q = Some d \<and> 0 \<le> snd q \<and> snd q < 0 + ?m
                            then load st (Some s, snd q) else load st q)"
    by (elim exE conjE)
  have t1': "trace st1 = trace st @ map (\<lambda>j. CopyAsgn (Some d, j) (ys ! j)) [0..<?m]"
  proof -
    have "map (\<lambda>j. CopyAsgn (Some d, j) (the (load st (Some s, j)))) [0..<?m]
        = map (\<lambda>j. CopyAsgn (Some d, j) (ys ! j)) [0..<?m]"
      by (rule map_cong[OF refl]) (use ls in auto)
    then show ?thesis using t1 by simp
  qed
  have l1s: "\<And>j. load st1 (Some s, j) = load st (Some s, j)"
    using l1[rule_format, of "(Some s, _)"] sd by simp
  have l1d: "\<And>j. j < ?m \<Longrightarrow> load st1 (Some d, j) = Some (ys ! j)"
    using l1[rule_format, of "(Some d, _)"] ls by simp
  show ?thesis
  proof (cases "?nx < ?ny")
    case True
    then obtain e where e: "?ny = ?nx + e" using le_Suc_ex less_imp_le by blast
    have m: "?m = ?nx" using True by simp
    have q1: "?nx + 0 + e \<le> block_size st1 s" "?nx + 0 + e \<le> block_size st1 d"
      using frameD(3)[OF f1] da db cb fit e by simp_all
    have q3: "\<forall>j. ?nx + 0 \<le> j \<and> j < ?nx + 0 + e \<longrightarrow> (\<exists>x. load st1 (Some s, j) = Some x \<and> \<not> copy_throws T x)"
    proof (intro allI impI)
      fix j assume "?nx + 0 \<le> j \<and> j < ?nx + 0 + e"
      then have "j < ?ny" using e by simp
      then show "\<exists>x. load st1 (Some s, j) = Some x \<and> \<not> copy_throws T x"
        using ls[of j] ok[of j] by (simp add: l1s)
    qed
    from uninit_copy_ok[OF sd q1 q3] obtain st2 where
      r2: "uninitialized_loop T ByCopy (Some s, ?nx) (Some d, ?nx) 0 e st1 = Returns () st2" and
      f2: "frame st1 st2" and
      t2: "trace st2 = trace st1 @ map (\<lambda>j. CopyCtor (Some d, ?nx + j) (the (load st1 (Some s, ?nx + j)))) [0..<0 + e]" and
      l2: "\<forall>q. load st2 q = (if fst q = Some d \<and> ?nx + 0 \<le> snd q \<and> snd q < ?nx + 0 + e
                            then load st1 (Some s, snd q - ?nx + ?nx) else load st1 q)"
      by (elim exE conjE)
    let ?st' = "set_vec this (?a\<lparr>m_size := ?ny\<rparr>) st2"
    have c: "copy_assign T this rhs st = Returns () ?st'"
      using ne sa sb nocap r1 r2 True e bd bs m
      by (simp add: copy_assign_def Let_def GetAddress_def uninitialized_copy_n_def)
    have fr: "frame st st2" using f1 f2 by (rule frame_trans)
    have h1: "holds ?st' this ys"
    proof (rule holdsI[where b = d])
      fix j assume j: "j < ?ny"
      show "load ?st' (Some d, j) = Some (ys ! j)"
      proof (cases "j < ?nx")
        case True
        then show ?thesis using l2[rule_format, of "(Some d, j)"] l1d[of j] m by simp
      next
        case False
        then have "load st2 (Some d, j) = load st1 (Some s, j)"
          using l2[rule_format, of "(Some d, j)"] j e by simp
        then show ?thesis using ls[OF j] by (simp add: l1s)
      qed
    qed (use bd da fit frameD[OF fr] cpos in \<open>auto\<close>)
    have h2: "holds ?st' rhs ys"
    proof (rule holds_other[OF hb])
      fix j assume "j < ?ny"
      show "load ?st' (m_buffer (m_data ?b), j) = load st (m_buffer (m_data ?b), j)"
        using l2[rule_format, of "(Some s, j)"] sd by (simp add: bs l1s)
    qed (use ne frameD[OF fr] in \<open>auto\<close>)
    have v: "m_data (vecs ?st' this) = m_data ?a" by simp
    have "map (\<lambda>j. CopyCtor (Some d, ?nx + j) (the (load st1 (Some s, ?nx + j)))) [0..<e]
        = map (\<lambda>j. CopyCtor (Some d, ?nx + j) (ys ! (?nx + j))) [0..<e]"
      by (rule map_cong[OF refl]) (use ls e in \<open>auto simp: l1s\<close>)
    also have "\<dots> = map (\<lambda>j. CopyCtor (Some d, j) (ys ! j)) [?nx..<?nx + e]"
      by (rule map_upt_shift[symmetric])
    finally have tt: "trace ?st' = trace st @ map (\<lambda>j. CopyAsgn (Some d, j) (ys ! j)) [0..<?m]
            @ map (\<lambda>j. CopyCtor (Some d, j) (ys ! j)) [?nx..<?ny]
            @ map (\<lambda>j. Dtor (Some d, j)) [?ny..<?nx]"
      using t2 t1' e by simp
    show ?thesis
      by (intro exI[of _ ?st'] conjI c h1 h2 v tt)
  next
    case False
    then obtain e where e: "?nx = ?ny + e" using le_Suc_ex not_less by blast
    have m: "?m = ?ny" using False by simp
    have q1: "?ny + e \<le> block_size st1 d" using frameD(3)[OF f1] da ca e by simp
    from destroy_n_ok[OF q1] obtain st2 where
      r2: "destroy_n (Some d, ?ny) e st1 = Returns () st2" and
      f2: "frame st1 st2" and
      t2: "trace st2 = trace st1 @ map (\<lambda>j. Dtor (Some d, j)) [?ny..<?ny + e]" and
      l2: "\<forall>q. load st2 q = (if fst q = Some d \<and> ?ny \<le> snd q \<and> snd q < ?ny + e then None else load st1 q)"
      by (elim exE conjE)
    let ?st' = "set_vec this (?a\<lparr>m_size := ?ny\<rparr>) st2"
    have c: "copy_assign T this rhs st = Returns () ?st'"
      using ne sa sb nocap r1 r2 False e bd bs m
      by (simp add: copy_assign_def Let_def GetAddress_def)
    have fr: "frame st st2" using f1 f2 by (rule frame_trans)
    have h1: "holds ?st' this ys"
    proof (rule holdsI[where b = d])
      fix j assume j: "j < ?ny"
      show "load ?st' (Some d, j) = Some (ys ! j)"
        using l2[rule_format, of "(Some d, j)"] l1d[of j] m j by simp
    qed (use bd da fit frameD[OF fr] cpos in \<open>auto\<close>)
    have h2: "holds ?st' rhs ys"
    proof (rule holds_other[OF hb])
      fix j assume "j < ?ny"
      show "load ?st' (m_buffer (m_data ?b), j) = load st (m_buffer (m_data ?b), j)"
        using l2[rule_format, of "(Some s, j)"] sd by (simp add: bs l1s)
    qed (use ne frameD[OF fr] in \<open>auto\<close>)
    have v: "m_data (vecs ?st' this) = m_data ?a" by simp
    have tt: "trace ?st' = trace st @ map (\<lambda>j. CopyAsgn (Some d, j) (ys ! j)) [0..<?m]
            @ map (\<lambda>j. CopyCtor (Some d, j) (ys ! j)) [?nx..<?ny]
            @ map (\<lambda>j. Dtor (Some d, j)) [?ny..<?nx]"
      using t2 t1' e by simp
    show ?thesis
      by (intro exI[of _ ?st'] conjI c h1 h2 v tt)
  qed
qed

lemma holds_two_vectors: "holds two_vectors 0 [1, 2, 3, 4, 5]" "holds two_vectors 1 [7, 8]"
  by (simp_all add: holds_def two_vectors_def block_size_def load_def upt_rec)

text \<open>
  Claim C6.  Copy assignment \<open>a = b\<close> between two vector objects that own different blocks,
  with the size of \<open>b\<close> at most the capacity of \<open>a\<close> and no copy of an element of \<open>b\<close>
  throwing: the call returns, \<open>a\<close> keeps its block and its capacity and holds the elements of
  \<open>b\<close>, and \<open>b\<close> is unchanged.  The trace of the call is: one copy assignment for every
  index below both sizes, then one copy construction for every further index of \<open>b\<close>, then
  one destructor call for every further index of \<open>a\<close>; nothing is allocated.  Assigning a
  vector to itself returns at once and changes nothing.
\<close>

theorem copy_assign_reuses_storage:
  assumes "this \<noteq> rhs" and "holds st this xs" and "holds st rhs ys"
    and "m_buffer (m_data (vecs st rhs)) = None
         \<or> m_buffer (m_data (vecs st rhs)) \<noteq> m_buffer (m_data (vecs st this))"
    and "length ys \<le> Capacity st this"
    and "\<forall>y\<in>set ys. \<not> copy_assign_throws T y \<and> \<not> copy_throws T y"
  shows "\<exists>st'. copy_assign T this rhs st = Returns () st'
      \<and> holds st' this ys \<and> holds st' rhs ys
      \<and> Size st' this = length ys \<and> Capacity st' this = Capacity st this
      \<and> begin_it (vecs st' this) = begin_it (vecs st this)
      \<and> trace st' = trace st
            @ map (\<lambda>j. CopyAsgn (ptr_add (begin_it (vecs st this)) j) (ys ! j)) [0..<min (length xs) (length ys)]
            @ map (\<lambda>j. CopyCtor (ptr_add (begin_it (vecs st this)) j) (ys ! j)) [length xs..<length ys]
            @ map (\<lambda>j. Dtor (ptr_add (begin_it (vecs st this)) j)) [length ys..<length xs]
      \<and> copy_assign T this this st0 = Returns () st0"
proof -
  let ?a = "vecs st this"
  let ?b = "vecs st rhs"
  have ha: "holds st this xs" and hb: "holds st rhs ys" by fact+
  have fit: "length ys \<le> m_capacity (m_data ?a)" using assms(5) by (simp add: Capacity_def)
  have self: "copy_assign T this this st0 = Returns () st0" by (simp add: copy_assign_def)
  have pa: "\<And>j. ptr_add (begin_it ?a) j = (m_buffer (m_data ?a), j)"
    by (simp add: begin_it_def GetAddress_def)
  have "\<exists>st'. copy_assign T this rhs st = Returns () st' \<and> holds st' this ys \<and> holds st' rhs ys
      \<and> m_data (vecs st' this) = m_data ?a
      \<and> trace st' = trace st
            @ map (\<lambda>j. CopyAsgn (m_buffer (m_data ?a), j) (ys ! j)) [0..<min (length xs) (length ys)]
            @ map (\<lambda>j. CopyCtor (m_buffer (m_data ?a), j) (ys ! j)) [length xs..<length ys]
            @ map (\<lambda>j. Dtor (m_buffer (m_data ?a), j)) [length ys..<length xs]"
  proof (cases "ys = []")
    case True
    have sep: "m_buffer (m_data ?a) \<noteq> m_buffer (m_data ?b) \<or> m_buffer (m_data ?b) = None"
      using assms(4) by auto
    from copy_assign_reuse_empty[OF assms(1) ha hb[unfolded True] sep, of T] True
    show ?thesis by simp
  next
    case False
    then have "0 < m_capacity (m_data ?b)" using holds_le[OF hb] by (cases ys) auto
    from holds_buffer[OF hb this] obtain s where bs: "m_buffer (m_data ?b) = Some s"
      by (elim exE conjE)
    have "0 < m_capacity (m_data ?a)" using False fit by (cases ys) auto
    from holds_buffer[OF ha this] obtain d where bd: "m_buffer (m_data ?a) = Some d"
      by (elim exE conjE)
    have sd: "s \<noteq> d" using assms(4) bs bd by auto
    from copy_assign_reuse_nonempty[OF assms(1) ha hb bd bs sd fit assms(6)] bd
    show ?thesis by simp
  qed
  then obtain st' where
    c: "copy_assign T this rhs st = Returns () st'" and h1: "holds st' this ys" and h2: "holds st' rhs ys" and
    v: "m_data (vecs st' this) = m_data ?a" and
    t: "trace st' = trace st
            @ map (\<lambda>j. CopyAsgn (m_buffer (m_data ?a), j) (ys ! j)) [0..<min (length xs) (length ys)]
            @ map (\<lambda>j. CopyCtor (m_buffer (m_data ?a), j) (ys ! j)) [length xs..<length ys]
            @ map (\<lambda>j. Dtor (m_buffer (m_data ?a), j)) [length ys..<length xs]"
    by (elim exE conjE)
  have sz: "Size st' this = length ys" using holds_size[OF h1] by (simp add: Size_def)
  have cp: "Capacity st' this = Capacity st this" using v by (simp add: Capacity_def)
  have bg: "begin_it (vecs st' this) = begin_it ?a" using v by (simp add: begin_it_def)
  have tt: "trace st' = trace st
            @ map (\<lambda>j. CopyAsgn (ptr_add (begin_it ?a) j) (ys ! j)) [0..<min (length xs) (length ys)]
            @ map (\<lambda>j. CopyCtor (ptr_add (begin_it ?a) j) (ys ! j)) [length xs..<length ys]
            @ map (\<lambda>j. Dtor (ptr_add (begin_it ?a) j)) [length ys..<length xs]"
    by (simp only: t pa)
  show ?thesis
    by (intro exI[of _ st'] conjI c h1 h2 sz cp bg tt self)
qed

theorem copy_assign_reuses_storage_witness:
  "(0 :: nat) \<noteq> 1 \<and> holds two_vectors 0 [1, 2, 3, 4, 5] \<and> holds two_vectors 1 [7, 8]
   \<and> length [7, 8 :: nat] \<le> Capacity two_vectors 0
   \<and> (\<exists>st'. copy_assign throwing_copy 0 1 two_vectors = Returns () st'
        \<and> holds st' 0 [7, 8] \<and> Capacity st' 0 = 5
        \<and> trace st' = [CopyAsgn (Some 0, 0) 7, CopyAsgn (Some 0, 1) 8,
                        Dtor (Some 0, 2), Dtor (Some 0, 3), Dtor (Some 0, 4)])"
proof -
  have ne: "(0 :: nat) \<noteq> 1" by simp
  have sep: "m_buffer (m_data (vecs two_vectors 1)) = None
         \<or> m_buffer (m_data (vecs two_vectors 1)) \<noteq> m_buffer (m_data (vecs two_vectors 0))"
    by (simp add: two_vectors_def)
  have fit: "length [7, 8 :: nat] \<le> Capacity two_vectors 0" by (simp add: two_vectors_def Capacity_def)
  have nt: "\<forall>y\<in>set [7, 8]. \<not> copy_assign_throws throwing_copy y \<and> \<not> copy_throws throwing_copy y"
    by (simp add: throwing_copy_def)
  from copy_assign_reuses_storage[OF ne holds_two_vectors sep fit nt, where ?st0.0 = two_vectors]
  have "\<exists>st'. copy_assign throwing_copy 0 1 two_vectors = Returns () st'
      \<and> holds st' 0 [7, 8] \<and> Capacity st' 0 = Capacity two_vectors 0
      \<and> trace st' = trace two_vectors
            @ map (\<lambda>j. CopyAsgn (ptr_add (begin_it (vecs two_vectors 0)) j) ([7, 8] ! j)) [0..<min (length [1, 2, 3, 4, 5 :: nat]) (length [7, 8 :: nat])]
            @ map (\<lambda>j. CopyCtor (ptr_add (begin_it (vecs two_vectors 0)) j) ([7, 8] ! j)) [length [1, 2, 3, 4, 5 :: nat]..<length [7, 8 :: nat]]
            @ map (\<lambda>j. Dtor (ptr_add (begin_it (vecs two_vectors 0)) j)) [length [7, 8 :: nat]..<length [1, 2, 3, 4, 5 :: nat]]"
    by (elim exE conjE, intro exI conjI)
  then obtain st' where
    c: "copy_assign throwing_copy 0 1 two_vectors = Returns () st'" and
    h: "holds st' 0 [7, 8]" and cp: "Capacity st' 0 = Capacity two_vectors 0" and
    t: "trace st' = trace two_vectors
            @ map (\<lambda>j. CopyAsgn (ptr_add (begin_it (vecs two_vectors 0)) j) ([7, 8] ! j)) [0..<min (length [1, 2, 3, 4, 5 :: nat]) (length [7, 8 :: nat])]
            @ map (\<lambda>j. CopyCtor (ptr_add (begin_it (vecs two_vectors 0)) j) ([7, 8] ! j)) [length [1, 2, 3, 4, 5 :: nat]..<length [7, 8 :: nat]]
            @ map (\<lambda>j. Dtor (ptr_add (begin_it (vecs two_vectors 0)) j)) [length [7, 8 :: nat]..<length [1, 2, 3, 4, 5 :: nat]]"
    by (elim exE conjE)
  have cp': "Capacity st' 0 = 5" using cp by (simp add: two_vectors_def Capacity_def)
  have t': "trace st' = [CopyAsgn (Some 0, 0) 7, CopyAsgn (Some 0, 1) 8,
                        Dtor (Some 0, 2), Dtor (Some 0, 3), Dtor (Some 0, 4)]"
    using t by (simp add: two_vectors_def begin_it_def GetAddress_def upt_rec)
  show ?thesis
    by (intro conjI exI[of _ st'] ne holds_two_vectors fit c h cp' t')
qed

lemmas run_defs = bind_def unwind_def assert_def sz_sub_def ptr_add_def ptr_sub_def ptr_diff_def
  in_storage_def load_def store_def log_def read_operand_def copy_value_def move_value_def
  construct_def construct_tmp_def assign_def value_construct_def destroy_at_def
  uninitialized_copy_n_def uninitialized_move_n_def std_move_def move_backward_def
  Allocate_def Deallocate_def RawMemory_default_def RawMemory_new_def RawMemory_dtor_def
  RawMemory_plus_def RawMemory_at_def GetAddress_def
  begin_it_def end_it_def Vector_default_def Size_def Capacity_def set_vec_def
  Vector_dtor_def Vector_copy_def Vector_sized_def Vector_move_def move_assign_def Swap_def
  copy_assign_def relocate_def Reserve_def Resize_def grow_back_def Destroy_def DestroyN_def
  inc_size_def EmplaceBack_def PushBack_def PopBack_def Emplace_grow_def shift_right_def
  Emplace_shift_def Emplace_def shift_left_def Erase_def Insert_def Insert_rvalue_def Index_def
  final_state_def throws_def

text \<open>
  Claim C2, evaluated where the code departs from it.  A vector holding the one element 7
  with size and capacity 1; \<open>PushBack\<close> of a value on which the copy constructor throws.
  With an element type that relocation copies, the exception leaves the vector as it was,
  but the copy of 7 constructed in the new block is never destroyed: the block is
  deallocated right after the constructor call.  With an element type that relocation
  moves, the element of the vector is left in its moved-from state, and the object moved
  into the new block is never destroyed either.
\<close>

theorem push_back_throw_leaves_relocated_elements:
  "PushBack throwing_copy 0 (External 13) full_one
     = Throws (full_one\<lparr>fresh := 2, trace := [Alloc 1 2, CopyCtor (Some 1, 0) 7, Dealloc 1]\<rparr>)
   \<and> PushBack noexcept_move 0 (External 13) full_one
     = Throws (full_one\<lparr>blocks := (\<lambda>b. None)(0 \<mapsto> [Some 0]), fresh := 2,
                 trace := [Alloc 1 2, MoveCtor (Some 1, 0) 7, Dealloc 1]\<rparr>)
   \<and> load full_one (Some 0, 0) = Some 7"
  by (simp add: run_defs throwing_copy_def noexcept_move_def full_one_def)

text \<open>
  Claim C3, evaluated where the code departs from it.  Vector 0 holds five elements in block
  0, vector 1 holds two elements in block 1.  After the move assignment of vector 1 to
  vector 0, vector 0 has the block and the size of vector 1, vector 1 has block 0 and size
  0, and no destructor has run.  The destructor of vector 1 then deallocates block 0
  without destroying any of the five elements in it.
\<close>

theorem move_assign_never_destroys_old_elements:
  "Size (move_assign 0 1 two_vectors) 0 = 2
   \<and> begin_it (vecs (move_assign 0 1 two_vectors) 0) = (Some 1, 0)
   \<and> vecs (move_assign 0 1 two_vectors) 1 = \<lparr>m_data = \<lparr>m_buffer = Some 0, m_capacity = 5\<rparr>, m_size = 0\<rparr>
   \<and> trace (move_assign 0 1 two_vectors) = []
   \<and> load (move_assign 0 1 two_vectors) (Some 0, 4) = Some 5
   \<and> map_option trace (final_state (Vector_dtor (vecs (move_assign 0 1 two_vectors) 1) (move_assign 0 1 two_vectors)))
       = Some [Dealloc 0]
   \<and> move_assign 0 0 two_vectors = two_vectors"
  by (simp add: run_defs two_vectors_def Let_def)

lemma throws_simps [simp]:
  "throws (Returns r s) = False" "throws (Throws s) = True"
  "throws AssertFailed = False" "throws Undefined = False"
  by (simp_all add: throws_def)





lemma RawMemory_plus_no_throw: "\<not> throws (RawMemory_plus rm k st)"
  by (simp add: RawMemory_plus_def assert_def)






lemma post_simps [simp]:
  "post (Returns r s) Q = Q s" "post (Throws s) Q = Q s" "post AssertFailed Q" "post Undefined Q"
  by (simp_all add: post_def)

lemma post_bind: "post m Q \<Longrightarrow> (\<And>r s. Q s \<Longrightarrow> post (f r s) Q) \<Longrightarrow> post (bind m f) Q"
  by (cases m) simp_all

lemma post_unwind: "post m Q \<Longrightarrow> (\<And>s. Q s \<Longrightarrow> Q (c s)) \<Longrightarrow> post (unwind c m) Q"
  by (cases m) simp_all

lemma post_mono: "post m P \<Longrightarrow> (\<And>s. P s \<Longrightarrow> Q s) \<Longrightarrow> post m Q"
  by (cases m) simp_all

lemma post_final: "post m Q \<Longrightarrow> final_state m = Some s \<Longrightarrow> Q s"
  by (cases m) (simp_all add: final_state_def)

lemma post_Returns: "post m Q \<Longrightarrow> m = Returns r s \<Longrightarrow> Q s"
  by simp

lemma post_Throws: "post m Q \<Longrightarrow> m = Throws s \<Longrightarrow> Q s"
  by simp

subsection \<open>No algorithm touches a vector object\<close>

lemma vecs_Deallocate [simp]: "vecs (Deallocate buf st) = vecs st"
  by (simp add: Deallocate_def split: option.splits)

lemma vecs_RawMemory_dtor [simp]: "vecs (RawMemory_dtor rm st) = vecs st"
  by (simp add: RawMemory_dtor_def)

lemma vecs_assert: "vecs st = V \<Longrightarrow> post (assert c st) (\<lambda>s. vecs s = V)"
  by (simp add: assert_def)

lemma vecs_RawMemory_plus: "vecs st = V \<Longrightarrow> post (RawMemory_plus rm k st) (\<lambda>s. vecs s = V)"
  by (simp add: RawMemory_plus_def assert_def)

lemma vecs_RawMemory_at: "vecs st = V \<Longrightarrow> post (RawMemory_at rm k st) (\<lambda>s. vecs s = V)"
  by (simp add: RawMemory_at_def assert_def)

lemma vecs_ptr_diff: "vecs st = V \<Longrightarrow> post (ptr_diff p q st) (\<lambda>s. vecs s = V)"
  by (simp add: ptr_diff_def)

lemma vecs_RawMemory_new: "vecs st = V \<Longrightarrow> post (RawMemory_new n st) (\<lambda>s. vecs s = V)"
  by (simp add: RawMemory_new_def Allocate_def)

lemma vecs_copy_value: "vecs st = V \<Longrightarrow> post (copy_value T s st) (\<lambda>s. vecs s = V)"
  by (simp add: copy_value_def split: option.splits)

lemma vecs_move_value: "vecs st = V \<Longrightarrow> post (move_value T s st) (\<lambda>s. vecs s = V)"
  by (simp add: move_value_def split: option.splits operand.splits)

lemma vecs_construct: "vecs st = V \<Longrightarrow> post (construct T p a st) (\<lambda>s. vecs s = V)"
  by (auto simp: construct_def split: arg.splits intro!: post_bind vecs_copy_value vecs_move_value)

lemma vecs_construct_tmp: "vecs st = V \<Longrightarrow> post (construct_tmp T a st) (\<lambda>s. vecs s = V)"
  by (auto simp: construct_tmp_def split: arg.splits intro!: post_bind vecs_copy_value vecs_move_value)

lemma vecs_assign: "vecs st = V \<Longrightarrow> post (assign T p a st) (\<lambda>s. vecs s = V)"
  by (auto simp: assign_def split: arg.splits option.splits intro!: post_bind vecs_move_value)

lemma vecs_value_construct: "vecs st = V \<Longrightarrow> post (value_construct T p st) (\<lambda>s. vecs s = V)"
  by (simp add: value_construct_def)

lemma vecs_destroy_at: "vecs st = V \<Longrightarrow> post (destroy_at p st) (\<lambda>s. vecs s = V)"
  by (simp add: destroy_at_def)

lemma vecs_destroy_n: "vecs st = V \<Longrightarrow> post (destroy_n p n st) (\<lambda>s. vecs s = V)"
proof (induction n arbitrary: p st)
  case 0
  then show ?case by simp
next
  case (Suc n)
  show ?case unfolding destroy_n.simps
    by (rule post_bind[OF vecs_destroy_at[OF Suc.prems]]) (rule Suc.IH)
qed

lemma vecs_uninitialized_loop:
  "vecs st = V \<Longrightarrow> post (uninitialized_loop T mk first d_first k n st) (\<lambda>s. vecs s = V)"
proof (induction n arbitrary: k st)
  case 0
  then show ?case by simp
next
  case (Suc n)
  have c: "post (construct T (ptr_add d_first k) (mk (Element (ptr_add first k))) st) (\<lambda>s. vecs s = V)"
    by (rule vecs_construct[OF Suc.prems])
  show ?case
  proof (cases "construct T (ptr_add d_first k) (mk (Element (ptr_add first k))) st")
    case (Returns u st1)
    then show ?thesis using c Suc.IH[of st1 "Suc k"] by simp
  next
    case (Throws st1)
    have "post (bind (destroy_n d_first k st1) (\<lambda>u. Throws)) (\<lambda>s. vecs s = V)"
      using c Throws by (intro post_bind vecs_destroy_n) simp_all
    then show ?thesis using Throws by simp
  qed simp_all
qed

lemma vecs_relocate: "vecs st = V \<Longrightarrow> post (relocate T first n d_first st) (\<lambda>s. vecs s = V)"
  by (simp add: relocate_def uninitialized_copy_n_def uninitialized_move_n_def vecs_uninitialized_loop)

lemma vecs_uninitialized_copy_n: "vecs st = V \<Longrightarrow> post (uninitialized_copy_n T first n d_first st) (\<lambda>s. vecs s = V)"
  by (simp add: uninitialized_copy_n_def vecs_uninitialized_loop)

lemma vecs_uninitialized_value_construct_n:
  "vecs st = V \<Longrightarrow> post (uninitialized_value_construct_n T p n st) (\<lambda>s. vecs s = V)"
proof (induction n arbitrary: p st)
  case 0
  then show ?case by simp
next
  case (Suc n)
  show ?case unfolding uninitialized_value_construct_n.simps
    by (rule post_bind[OF vecs_value_construct[OF Suc.prems]]) (rule Suc.IH)
qed

lemma vecs_move_forward: "vecs st = V \<Longrightarrow> post (move_forward T first d_first n st) (\<lambda>s. vecs s = V)"
proof (induction n arbitrary: first d_first st)
  case 0
  then show ?case by simp
next
  case (Suc n)
  show ?case unfolding move_forward.simps
    by (rule post_bind[OF vecs_assign[OF Suc.prems]]) (rule Suc.IH)
qed

lemma vecs_move_back: "vecs st = V \<Longrightarrow> post (move_back T last_it d_last n st) (\<lambda>s. vecs s = V)"
proof (induction n arbitrary: last_it d_last st)
  case 0
  then show ?case by simp
next
  case (Suc n)
  show ?case unfolding move_back.simps
    by (rule post_bind[OF vecs_assign[OF Suc.prems]]) (rule Suc.IH)
qed

lemma vecs_std_move: "vecs st = V \<Longrightarrow> post (std_move T first last_it d_first st) (\<lambda>s. vecs s = V)"
  unfolding std_move_def by (intro post_bind vecs_ptr_diff vecs_move_forward)

lemma vecs_move_backward: "vecs st = V \<Longrightarrow> post (move_backward T first last_it d_last st) (\<lambda>s. vecs s = V)"
  unfolding move_backward_def by (intro post_bind vecs_ptr_diff vecs_move_back)

lemma vecs_DestroyN_from: "vecs st = V \<Longrightarrow> post (DestroyN_from buf i n st) (\<lambda>s. vecs s = V)"
proof (induction n arbitrary: i st)
  case 0
  then show ?case by simp
next
  case (Suc n)
  show ?case unfolding DestroyN_from.simps Destroy_def
    by (rule post_bind[OF vecs_destroy_at[OF Suc.prems]]) (rule Suc.IH)
qed

lemma vecs_DestroyN: "vecs st = V \<Longrightarrow> post (DestroyN buf n st) (\<lambda>s. vecs s = V)"
  by (simp add: DestroyN_def vecs_DestroyN_from)

lemma vecs_assign_prefix: "vecs st = V \<Longrightarrow> post (assign_prefix T d s i n st) (\<lambda>s. vecs s = V)"
proof (induction n arbitrary: i st)
  case 0
  then show ?case by simp
next
  case (Suc n)
  show ?case unfolding assign_prefix.simps
    by (intro post_bind vecs_RawMemory_at vecs_assign Suc.prems Suc.IH)
qed

lemma vecs_shift_left: "vecs st = V \<Longrightarrow> post (shift_left T v i st) (\<lambda>s. vecs s = V)"
  unfolding shift_left_def by (intro post_bind vecs_RawMemory_plus vecs_std_move)

lemma vecs_shift_right: "vecs st = V \<Longrightarrow> post (shift_right T v i st) (\<lambda>s. vecs s = V)"
  unfolding shift_right_def
  by (intro post_bind vecs_RawMemory_plus vecs_RawMemory_at vecs_construct vecs_move_backward)

lemma vecs_Vector_dtor: "vecs st = V \<Longrightarrow> post (Vector_dtor v st) (\<lambda>s. vecs s = V)"
  unfolding Vector_dtor_def by (rule post_bind[OF vecs_destroy_n]) simp_all

lemma vecs_Vector_copy: "vecs st = V \<Longrightarrow> post (Vector_copy T other st) (\<lambda>s. vecs s = V)"
  unfolding Vector_copy_def
  by (intro post_bind post_unwind vecs_RawMemory_new vecs_uninitialized_copy_n) simp_all

lemma vecs_Vector_sized: "vecs st = V \<Longrightarrow> post (Vector_sized T n st) (\<lambda>s. vecs s = V)"
  unfolding Vector_sized_def
  by (intro post_bind vecs_RawMemory_new vecs_uninitialized_value_construct_n) simp_all

subsection \<open>What each operation does to the vector objects\<close>

lemma post_vecs_Returns: "post m (\<lambda>s. vecs s = V) \<Longrightarrow> m = Returns r s \<Longrightarrow> vecs s = V"
  by simp

lemma post_vecs_Throws: "post m (\<lambda>s. vecs s = V) \<Longrightarrow> m = Throws s \<Longrightarrow> vecs s = V"
  by simp

lemma RawMemory_new_Returns:
  "n \<noteq> 0 \<Longrightarrow> \<exists>st1. RawMemory_new n st = Returns \<lparr>m_buffer = Some (fresh st), m_capacity = n\<rparr> st1 \<and> vecs st1 = vecs st"
  using RawMemory_new_ok[of n st] by blast

lemma RawMemory_new_any:
  "\<exists>buf st1. RawMemory_new n st = Returns \<lparr>m_buffer = buf, m_capacity = n\<rparr> st1 \<and> vecs st1 = vecs st"
  by (simp add: RawMemory_new_def Allocate_def)

lemma grow_back_vecs:
  "case grow_back T this a st of
     Returns p s \<Rightarrow> \<exists>buf. vecs s = (vecs st)(this := (vecs st this)\<lparr>m_data := \<lparr>m_buffer = buf,
              m_capacity = max 1 (2 * m_size (vecs st this))\<rparr>\<rparr>)
   | Throws s \<Rightarrow> vecs s = vecs st
   | AssertFailed \<Rightarrow> True | Undefined \<Rightarrow> True"
proof -
  define v where "v = vecs st this"
  define nc where "nc = (if m_size v = 0 then 1 else m_size v * 2)"
  have nc: "nc = max 1 (2 * m_size v)" by (simp add: nc_def max_def)
  obtain buf st1 where n: "RawMemory_new nc st = Returns \<lparr>m_buffer = buf, m_capacity = nc\<rparr> st1"
    and v1: "vecs st1 = vecs st"
    using RawMemory_new_any[of nc st] by blast
  define nd where "nd = \<lparr>m_buffer = buf, m_capacity = nc\<rparr>"
  define X where "X = bind (relocate T (GetAddress (m_data v)) (m_size v) (GetAddress nd) st1) (\<lambda>u st2.
                 bind (construct T (ptr_add (GetAddress nd) (m_size v)) a st2) (\<lambda>u.
                 destroy_n (GetAddress (m_data v)) (m_size v)))"
  have X: "post X (\<lambda>s. vecs s = vecs st)"
    unfolding X_def by (intro post_bind vecs_relocate vecs_construct vecs_destroy_n v1)
  have g: "grow_back T this a st = bind (unwind (RawMemory_dtor nd) X)
       (\<lambda>u st3. Returns (ptr_add (GetAddress nd) (m_size v))
                (RawMemory_dtor (m_data v) (set_vec this (v\<lparr>m_data := nd\<rparr>) st3)))"
    by (simp add: grow_back_def Let_def v_def[symmetric] nc_def[symmetric] n nd_def[symmetric] X_def)
  show ?thesis
  proof (cases X)
    case (Returns u st3)
    then have "vecs st3 = vecs st" using X by simp
    then have "vecs (RawMemory_dtor (m_data v) (set_vec this (v\<lparr>m_data := nd\<rparr>) st3))
         = (vecs st)(this := v\<lparr>m_data := \<lparr>m_buffer = buf, m_capacity = max 1 (2 * m_size v)\<rparr>\<rparr>)"
      by (simp add: set_vec_def nd_def nc)
    then show ?thesis unfolding g Returns v_def[symmetric] by (simp del: One_nat_def) blast
  next
    case (Throws st3)
    then show ?thesis using X g by simp
  qed (simp_all add: g)
qed

lemma vecs_inc_size:
  "vecs (inc_size this s) = (vecs s)(this := (vecs s this)\<lparr>m_size := m_size (vecs s this) + 1\<rparr>)"
  by (simp add: inc_size_def set_vec_def)

lemma EmplaceBack_vecs:
  "case EmplaceBack T this a st of
     Returns p s \<Rightarrow> inserted st this s
   | Throws s \<Rightarrow> vecs s = vecs st
   | AssertFailed \<Rightarrow> True | Undefined \<Rightarrow> True"
proof (cases "m_size (vecs st this) = m_capacity (m_data (vecs st this))")
  case True
  show ?thesis using grow_back_vecs[where T=T and this=this and a=a and st=st] True
    by (cases "grow_back T this a st")
      (auto simp: EmplaceBack_def Let_def inserted_def vecs_inc_size)
next
  case False
  define v where "v = vecs st this"
  have c: "post (construct T p a st) (\<lambda>s. vecs s = vecs st)" for p
    by (rule vecs_construct) simp
  show ?thesis
  proof (cases "m_size v \<le> m_capacity (m_data v)")
    case le: True
    show ?thesis using c[of "(m_buffer (m_data v), m_size v)"] False le
      by (cases "construct T (m_buffer (m_data v), m_size v) a st")
        (simp_all add: EmplaceBack_def Let_def v_def[symmetric] RawMemory_plus_def assert_def
            inserted_def vecs_inc_size)
  next
    case gt: False
    then show ?thesis using False
      by (simp add: EmplaceBack_def Let_def v_def[symmetric] RawMemory_plus_def assert_def)
  qed
qed

lemma PushBack_vecs:
  "case PushBack T this x st of
     Returns p s \<Rightarrow> inserted st this s
   | Throws s \<Rightarrow> vecs s = vecs st
   | AssertFailed \<Rightarrow> True | Undefined \<Rightarrow> True"
proof -
  have e: "PushBack T this x st = bind (EmplaceBack T this (ByCopy x) st) (\<lambda>r. Returns ())"
    by (simp add: PushBack_def EmplaceBack_def Let_def bind_def split: outcome.splits)
  show ?thesis using EmplaceBack_vecs[where T=T and this=this and a="ByCopy x" and st=st]
    by (cases "EmplaceBack T this (ByCopy x) st") (simp_all add: e)
qed

lemma Emplace_grow_vecs:
  assumes full: "m_size (vecs st this) = m_capacity (m_data (vecs st this))"
  shows "case Emplace_grow T this index a st of
     Returns p s \<Rightarrow> inserted st this s
   | Throws s \<Rightarrow> vecs s = vecs st
   | AssertFailed \<Rightarrow> True | Undefined \<Rightarrow> True"
proof -
  define v where "v = vecs st this"
  define nc where "nc = (if m_size v = 0 then 1 else m_size v * 2)"
  have nc: "nc = max 1 (2 * m_size v)" by (simp add: nc_def max_def)
  obtain buf st1 where n: "RawMemory_new nc st = Returns \<lparr>m_buffer = buf, m_capacity = nc\<rparr> st1"
    and v1: "vecs st1 = vecs st"
    using RawMemory_new_any[of nc st] by blast
  define nd where "nd = \<lparr>m_buffer = buf, m_capacity = nc\<rparr>"
  define X where "X = bind (relocate T (GetAddress (m_data v)) index (GetAddress nd) st1) (\<lambda>u st2.
                 bind (construct T (ptr_add (GetAddress nd) index) a st2) (\<lambda>u.
                 relocate T (ptr_add (GetAddress (m_data v)) index) (sz_sub (m_size v) index)
                   (ptr_add (ptr_add (GetAddress nd) index) 1)))"
  have X: "post X (\<lambda>s. vecs s = vecs st)"
    unfolding X_def by (intro post_bind vecs_relocate vecs_construct v1)
  have D: "post (DestroyN (GetAddress (m_data v)) (m_size v) s) (\<lambda>s'. vecs s' = vecs st)"
    if "vecs s = vecs st" for s
    by (rule vecs_DestroyN[OF that])
  have g: "Emplace_grow T this index a st = bind (unwind (RawMemory_dtor nd) X)
       (\<lambda>u st3. bind (DestroyN (GetAddress (m_data v)) (m_size v) st3) (\<lambda>u st4.
          Returns (ptr_add (GetAddress nd) index)
            (inc_size this (RawMemory_dtor (m_data v) (set_vec this (v\<lparr>m_data := nd\<rparr>) st4)))))"
    by (simp add: Emplace_grow_def Let_def v_def[symmetric] nc_def[symmetric] n nd_def[symmetric] X_def)
  show ?thesis
  proof (cases X)
    case (Returns u st3)
    then have v3: "vecs st3 = vecs st" using X by simp
    show ?thesis
    proof (cases "DestroyN (GetAddress (m_data v)) (m_size v) st3")
      case R: (Returns u' st4)
      then have v4: "vecs st4 = vecs st" using D[OF v3] by simp
      have e: "Emplace_grow T this index a st = Returns (ptr_add (GetAddress nd) index)
            (inc_size this (RawMemory_dtor (m_data v) (set_vec this (v\<lparr>m_data := nd\<rparr>) st4)))"
        unfolding g Returns by (simp add: R)
      have "inserted st this (inc_size this (RawMemory_dtor (m_data v) (set_vec this (v\<lparr>m_data := nd\<rparr>) st4)))"
        using full v4 by (simp add: inserted_def vecs_inc_size set_vec_def v_def[symmetric] nd_def nc)
      then show ?thesis unfolding e by simp
    next
      case T: (Throws st4)
      then have "vecs st4 = vecs st" using D[OF v3] by simp
      then show ?thesis unfolding g Returns by (simp add: T)
    qed (simp_all add: g Returns)
  next
    case (Throws st3)
    then show ?thesis using X g by simp
  qed (simp_all add: g)
qed

lemma Emplace_shift_vecs:
  assumes room: "m_size (vecs st this) \<noteq> m_capacity (m_data (vecs st this))"
  shows "case Emplace_shift T this index a st of
     Returns p s \<Rightarrow> inserted st this s
   | Throws s \<Rightarrow> vecs s = vecs st
   | AssertFailed \<Rightarrow> True | Undefined \<Rightarrow> True"
proof -
  define v where "v = vecs st this"
  define X where "X = bind (construct_tmp T a st) (\<lambda>tmp_copy st1.
      bind (if index < m_size v then shift_right T v index st1 else Returns () st1) (\<lambda>u st2.
      bind (RawMemory_at (m_data v) index st2) (\<lambda>p st3.
      bind (assign T p (ByMove (External tmp_copy)) st3) (\<lambda>u st4.
        RawMemory_plus (m_data v) index st4))))"
  have X: "post X (\<lambda>s. vecs s = vecs st)"
    unfolding X_def
    by (intro post_bind vecs_construct_tmp vecs_RawMemory_at vecs_assign vecs_RawMemory_plus)
       (auto intro: vecs_shift_right)
  have g: "Emplace_shift T this index a st = bind X (\<lambda>r st5. Returns r (log TmpDtor (inc_size this st5)))"
    unfolding Emplace_shift_def Let_def v_def[symmetric] X_def
    by (simp add: bind_def split: outcome.splits)
  show ?thesis using X room
    by (cases X) (simp_all add: g inserted_def vecs_inc_size)
qed

lemma Emplace_vecs:
  "case Emplace T this pos a st of
     Returns p s \<Rightarrow> inserted st this s
   | Throws s \<Rightarrow> vecs s = vecs st
   | AssertFailed \<Rightarrow> True | Undefined \<Rightarrow> True"
proof (cases "ptr_diff pos (begin_it (vecs st this)) st")
  case (Returns index st0)
  then have st0: "st0 = st" by (simp add: ptr_diff_def split: if_splits)
  have eb: "case bind (EmplaceBack T this a st) (\<lambda>r st1. Returns (ptr_add (begin_it (vecs st1 this)) index) st1) of
     Returns p s \<Rightarrow> inserted st this s
   | Throws s \<Rightarrow> vecs s = vecs st
   | AssertFailed \<Rightarrow> True | Undefined \<Rightarrow> True"
    using EmplaceBack_vecs[where T=T and this=this and a=a and st=st]
    by (cases "EmplaceBack T this a st") simp_all
  show ?thesis
  proof (cases "pos = end_it (vecs st this)")
    case True
    have "Emplace T this pos a st
        = bind (EmplaceBack T this a st) (\<lambda>r st1. Returns (ptr_add (begin_it (vecs st1 this)) index) st1)"
      unfolding Emplace_def Let_def Returns using True by (simp add: st0)
    then show ?thesis using eb by simp
  next
    case False
    show ?thesis
    proof (cases "m_size (vecs st this) = m_capacity (m_data (vecs st this))")
      case full: True
      have "Emplace T this pos a st = Emplace_grow T this index a st"
        unfolding Emplace_def Let_def Returns using False full by (simp add: st0)
      with Emplace_grow_vecs[OF full, where T=T and index=index and a=a] show ?thesis
        by simp
    next
      case room: False
      have "Emplace T this pos a st = Emplace_shift T this index a st"
        unfolding Emplace_def Let_def Returns using False room by (simp add: st0)
      with Emplace_shift_vecs[OF room, where T=T and index=index and a=a] show ?thesis
        by simp
    qed
  qed
qed (simp_all add: Emplace_def Let_def ptr_diff_def split: if_splits)

lemma no_shrink_same: "vecs s = vecs st \<Longrightarrow> no_shrink st s"
  by (simp add: no_shrink_def)

lemma no_shrink_inserted: "inserted st this s \<Longrightarrow> no_shrink st s"
  unfolding no_shrink_def inserted_def
proof (intro allI)
  fix w
  assume a: "m_size (vecs s this) = m_size (vecs st this) + 1 \<and>
     m_capacity (m_data (vecs s this)) =
       (if m_size (vecs st this) = m_capacity (m_data (vecs st this))
        then max 1 (2 * m_size (vecs st this)) else m_capacity (m_data (vecs st this))) \<and>
     (\<forall>w. w \<noteq> this \<longrightarrow> vecs s w = vecs st w)"
  show "m_capacity (m_data (vecs st w)) \<le> m_capacity (m_data (vecs s w))"
  proof (cases "w = this")
    case True
    then show ?thesis using a by (simp split: if_splits)
  next
    case False
    then show ?thesis using a by simp
  qed
qed

lemma no_shrink_post:
  assumes "case m of Returns p s \<Rightarrow> inserted st this s | Throws s \<Rightarrow> vecs s = vecs st
             | AssertFailed \<Rightarrow> True | Undefined \<Rightarrow> True"
  shows "post m (no_shrink st)"
  using assms by (cases m) (simp_all add: no_shrink_inserted no_shrink_same)

lemma no_shrink_step:
  "no_shrink st s \<Longrightarrow> post m (\<lambda>s'. vecs s' = vecs s) \<Longrightarrow> post m (no_shrink st)"
  by (erule post_mono) (simp add: no_shrink_def)

lemma no_shrink_size [simp]:
  "no_shrink st (set_vec this ((vecs s this)\<lparr>m_size := n\<rparr>) s) = no_shrink st s"
  by (auto simp: no_shrink_def set_vec_def)

lemma Reserve_no_shrink: "post (Reserve T this n st) (no_shrink st)"
proof (cases "n \<le> m_capacity (m_data (vecs st this))")
  case True
  then show ?thesis by (simp add: Reserve_def Let_def no_shrink_def)
next
  case False
  define v where "v = vecs st this"
  obtain buf st1 where n: "RawMemory_new n st = Returns \<lparr>m_buffer = buf, m_capacity = n\<rparr> st1"
    and v1: "vecs st1 = vecs st"
    using RawMemory_new_any[of n st] by blast
  define nd where "nd = \<lparr>m_buffer = buf, m_capacity = n\<rparr>"
  define X where "X = bind (relocate T (GetAddress (m_data v)) (m_size v) (GetAddress nd) st1)
                      (\<lambda>u. destroy_n (GetAddress (m_data v)) (m_size v))"
  have X: "post X (\<lambda>s. vecs s = vecs st)"
    unfolding X_def by (intro post_bind vecs_relocate vecs_destroy_n v1)
  have g: "Reserve T this n st = bind (unwind (RawMemory_dtor nd) X)
       (\<lambda>u st2. Returns () (RawMemory_dtor (m_data v) (set_vec this (v\<lparr>m_data := nd\<rparr>) st2)))"
    using False by (simp add: Reserve_def Let_def v_def[symmetric] n nd_def[symmetric] X_def)
  show ?thesis using X False
    by (cases X) (simp_all add: g no_shrink_def set_vec_def nd_def v_def)
qed

lemma Resize_no_shrink: "post (Resize T this n st) (no_shrink st)"
  unfolding Resize_def Let_def
proof (rule post_bind)
  show "post (if m_size (vecs st this) < n
       then bind (Reserve T this n st) (\<lambda>u st1. uninitialized_value_construct_n T
              (ptr_add (GetAddress (m_data (vecs st1 this))) (m_size (vecs st this)))
              (n - m_size (vecs st this)) st1)
       else if n < m_size (vecs st this)
       then destroy_n (ptr_add (GetAddress (m_data (vecs st this))) n) (m_size (vecs st this) - n) st
       else Returns () st) (no_shrink st)"
  proof (cases "m_size (vecs st this) < n")
    case True
    have "post (bind (Reserve T this n st) (\<lambda>u st1. uninitialized_value_construct_n T
              (ptr_add (GetAddress (m_data (vecs st1 this))) (m_size (vecs st this)))
              (n - m_size (vecs st this)) st1)) (no_shrink st)"
      by (rule post_bind[OF Reserve_no_shrink])
         (erule no_shrink_step, rule vecs_uninitialized_value_construct_n, simp)
    then show ?thesis using True by simp
  next
    case False
    have "post (destroy_n p k st) (no_shrink st)" for p k
      by (rule no_shrink_step[OF _ vecs_destroy_n]) (simp_all add: no_shrink_def)
    then show ?thesis using False by (simp add: no_shrink_def)
  qed
qed simp

lemma PopBack_no_shrink: "post (PopBack this st) (no_shrink st)"
proof -
  define v where "v = vecs st this"
  define X where "X = bind (assert (m_size v > 0) st) (\<lambda>u st1.
      bind (RawMemory_plus (m_data v) (m_size v) st1) (\<lambda>p st2. destroy_at (ptr_sub p 1) st2))"
  have X: "post X (\<lambda>s. vecs s = vecs st)"
    unfolding X_def by (intro post_bind vecs_assert vecs_RawMemory_plus vecs_destroy_at) simp
  have g: "PopBack this st = bind X (\<lambda>u st3. Returns () (set_vec this (v\<lparr>m_size := sz_sub (m_size v) 1\<rparr>) st3))"
    unfolding PopBack_def Let_def v_def[symmetric] X_def by (simp add: bind_def split: outcome.splits)
  show ?thesis using X
    by (cases X) (simp_all add: g no_shrink_def set_vec_def v_def)
qed

lemma Erase_no_shrink: "post (Erase T this pos st) (no_shrink st)"
proof -
  define v where "v = vecs st this"
  define X where "X = bind (ptr_diff pos (begin_it v) st) (\<lambda>index st0.
      bind (RawMemory_plus (m_data v) index st0) (\<lambda>p st1.
      bind (destroy_at p st1) (\<lambda>u st2.
      bind (if index < sz_sub (m_size v) 1 then shift_left T v index st2 else Returns () st2) (\<lambda>u.
        Returns index))))"
  have X: "post X (\<lambda>s. vecs s = vecs st)"
    unfolding X_def
    by (intro post_bind vecs_ptr_diff vecs_RawMemory_plus vecs_destroy_at)
       (auto intro: vecs_shift_left)
  have g: "Erase T this pos st = bind X (\<lambda>index st3. Returns (ptr_add (begin_it v) index)
          (set_vec this (v\<lparr>m_size := sz_sub (m_size v) 1\<rparr>) st3))"
    unfolding Erase_def Let_def v_def[symmetric] X_def by (simp add: bind_def split: outcome.splits)
  show ?thesis using X
    by (cases X) (simp_all add: g no_shrink_def set_vec_def v_def)
qed

lemma Vector_copy_Returns:
  "Vector_copy T other st = Returns v s \<Longrightarrow> m_capacity (m_data v) = m_size other \<and> vecs s = vecs st"
proof -
  assume a: "Vector_copy T other st = Returns v s"
  obtain buf st1 where n: "RawMemory_new (m_size other) st = Returns \<lparr>m_buffer = buf, m_capacity = m_size other\<rparr> st1"
    using RawMemory_new_any[of "m_size other" st] by blast
  have "m_capacity (m_data v) = m_size other"
    using a unfolding Vector_copy_def n by (auto simp: bind_def unwind_def split: outcome.splits)
  moreover have "vecs s = vecs st"
    using vecs_Vector_copy[of st "vecs st" T other] a by simp
  ultimately show ?thesis by simp
qed

lemma copy_assign_no_shrink: "post (copy_assign T this rhs st) (no_shrink st)"
proof (cases "this = rhs")
  case True
  then show ?thesis by (simp add: copy_assign_def no_shrink_def)
next
  case ne: False
  define a where "a = vecs st this"
  define b where "b = vecs st rhs"
  show ?thesis
  proof (cases "m_size b > m_capacity (m_data a)")
    case True
    have g: "copy_assign T this rhs st
        = bind (Vector_copy T b st) (\<lambda>tmp st1. Vector_dtor a (set_vec this tmp st1))"
      using ne True by (simp add: copy_assign_def Let_def a_def b_def)
    show ?thesis
    proof (cases "Vector_copy T b st")
      case (Returns tmp st1)
      from Vector_copy_Returns[OF this] have c: "m_capacity (m_data tmp) = m_size b" and v: "vecs st1 = vecs st"
        by simp_all
      have ns: "no_shrink st (set_vec this tmp st1)"
        using c v True by (simp add: no_shrink_def set_vec_def a_def)
      have "post (Vector_dtor a (set_vec this tmp st1)) (no_shrink st)"
        by (rule no_shrink_step[OF ns]) (rule vecs_Vector_dtor, simp)
      then show ?thesis by (simp add: g Returns)
    next
      case (Throws st1)
      then have "vecs st1 = vecs st" using vecs_Vector_copy[of st "vecs st" T b] by simp
      then show ?thesis by (simp add: g Throws no_shrink_def)
    qed (simp_all add: g)
  next
    case False
    define i where "i = min (m_size a) (m_size b)"
    define X where "X = bind (assign_prefix T (m_data a) (m_data b) 0 i st) (\<lambda>u st1.
            (if i < m_size b
                  then uninitialized_copy_n T (ptr_add (GetAddress (m_data b)) i) (m_size b - i)
                         (ptr_add (GetAddress (m_data a)) i) st1
                  else destroy_n (ptr_add (GetAddress (m_data a)) i) (m_size a - i) st1))"
    have X: "post X (\<lambda>s. vecs s = vecs st)"
      unfolding X_def
      by (intro post_bind vecs_assign_prefix)
         (auto intro: vecs_uninitialized_copy_n vecs_destroy_n)
    have g: "copy_assign T this rhs st
        = bind X (\<lambda>u st2. Returns () (set_vec this (a\<lparr>m_size := m_size b\<rparr>) st2))"
      using ne False unfolding copy_assign_def Let_def a_def[symmetric] b_def[symmetric] i_def[symmetric] X_def
      by (simp add: bind_def split: outcome.splits)
    show ?thesis using X
      by (cases X) (simp_all add: g no_shrink_def set_vec_def a_def)
  qed
qed

lemma Index_no_shrink: "post (Index this i st) (no_shrink st)"
  by (simp add: Index_def Let_def assert_def RawMemory_at_def no_shrink_def)

lemma drop_result_simps [simp]:
  "drop_result (Returns r s) = Returns () s" "drop_result (Throws s) = Throws s"
  "drop_result AssertFailed = AssertFailed" "drop_result Undefined = Undefined"
  by (simp_all add: drop_result_def)

lemma PushBack_rvalue_EmplaceBack:
  "PushBack_rvalue T this x st = drop_result (EmplaceBack T this (ByMove x) st)"
  by (simp add: PushBack_rvalue_def EmplaceBack_def Let_def drop_result_def bind_def split: outcome.splits)

lemma PushBack_drop: "PushBack T this x st = drop_result (EmplaceBack T this (ByCopy x) st)"
  by (simp add: PushBack_def EmplaceBack_def Let_def drop_result_def bind_def split: outcome.splits)

lemma drop_result_vecs:
  assumes "case m of Returns p s \<Rightarrow> inserted st this s | Throws s \<Rightarrow> vecs s = vecs st
             | AssertFailed \<Rightarrow> True | Undefined \<Rightarrow> True"
  shows "case drop_result m of Returns p s \<Rightarrow> inserted st this s | Throws s \<Rightarrow> vecs s = vecs st
             | AssertFailed \<Rightarrow> True | Undefined \<Rightarrow> True"
  using assms by (cases m) simp_all

lemma insertion_vecs:
  assumes "is_insertion this c"
  shows "case perform T c st of Returns p s \<Rightarrow> inserted st this s | Throws s \<Rightarrow> vecs s = vecs st
             | AssertFailed \<Rightarrow> True | Undefined \<Rightarrow> True"
proof (cases c)
  case (Call_PushBack w x)
  then show ?thesis using assms
    by (simp add: PushBack_drop drop_result_vecs[OF EmplaceBack_vecs])
next
  case (Call_PushBack_rvalue w x)
  then show ?thesis using assms
    by (simp add: PushBack_rvalue_EmplaceBack drop_result_vecs[OF EmplaceBack_vecs])
next
  case (Call_EmplaceBack w a)
  then show ?thesis using assms by (simp add: drop_result_vecs[OF EmplaceBack_vecs])
next
  case (Call_Emplace w pos a)
  then show ?thesis using assms by (simp add: drop_result_vecs[OF Emplace_vecs])
next
  case (Call_Insert w pos x)
  then show ?thesis using assms by (simp add: Insert_def drop_result_vecs[OF Emplace_vecs])
next
  case (Call_Insert_rvalue w pos x)
  then show ?thesis using assms by (simp add: Insert_rvalue_def drop_result_vecs[OF Emplace_vecs])
qed (use assms in simp_all)

lemma insertion_Returns:
  "is_insertion this c \<Longrightarrow> perform T c st = Returns u s \<Longrightarrow> inserted st this s"
  using insertion_vecs[where this=this and c=c and T=T and st=st] by simp

lemma post_drop_result: "post m Q \<Longrightarrow> post (drop_result m) Q"
  by (cases m) simp_all

lemma perform_no_shrink:
  assumes "\<not> exchanges c"
  shows "post (perform T c st) (no_shrink st)"
proof (cases c)
  case (Call_copy_assign this rhs)
  then show ?thesis by (simp add: copy_assign_no_shrink)
next
  case (Call_Reserve this n)
  then show ?thesis by (simp add: Reserve_no_shrink)
next
  case (Call_Resize this n)
  then show ?thesis by (simp add: Resize_no_shrink)
next
  case (Call_PushBack this x)
  then have "is_insertion this c" by simp
  from no_shrink_post[OF insertion_vecs[OF this]] show ?thesis .
next
  case (Call_PushBack_rvalue this x)
  then have "is_insertion this c" by simp
  from no_shrink_post[OF insertion_vecs[OF this]] show ?thesis .
next
  case (Call_EmplaceBack this a)
  then have "is_insertion this c" by simp
  from no_shrink_post[OF insertion_vecs[OF this]] show ?thesis .
next
  case (Call_PopBack this)
  then show ?thesis by (simp add: PopBack_no_shrink)
next
  case (Call_Emplace this pos a)
  then have "is_insertion this c" by simp
  from no_shrink_post[OF insertion_vecs[OF this]] show ?thesis .
next
  case (Call_Insert this pos x)
  then have "is_insertion this c" by simp
  from no_shrink_post[OF insertion_vecs[OF this]] show ?thesis .
next
  case (Call_Insert_rvalue this pos x)
  then have "is_insertion this c" by simp
  from no_shrink_post[OF insertion_vecs[OF this]] show ?thesis .
next
  case (Call_Erase this pos)
  then show ?thesis by (simp add: post_drop_result[OF Erase_no_shrink])
next
  case (Call_Index this i)
  then show ?thesis by (simp add: post_drop_result[OF Index_no_shrink])
qed (use assms in simp_all)

lemma doubling_step:
  "doubling (Suc n) = doubling n \<or> doubling (Suc n) = max 1 (2 * doubling n)"
  by simp

lemma doubling_ge: "n \<le> doubling n"
  by (induction n) (auto simp: max_def)

lemma doubling_mono_Suc: "doubling n \<le> doubling (Suc n)"
  using doubling_ge[of n] by (simp add: max_def)

lemma doubling_power: "\<exists>k. doubling (Suc n) = 2 ^ k"
proof (induction n)
  case 0
  have "doubling (Suc 0) = 2 ^ 0" by simp
  then show ?case ..
next
  case (Suc n)
  then obtain k where k: "doubling (Suc n) = 2 ^ k" ..
  show ?case
  proof (cases "Suc n = doubling (Suc n)")
    case True
    then have "doubling (Suc (Suc n)) = 2 * doubling (Suc n)"
      by (simp del: doubling.simps add: doubling.simps(2)[of "Suc n"] max_def)
    then have "doubling (Suc (Suc n)) = 2 ^ Suc k" using k by simp
    then show ?thesis ..
  next
    case False
    then have "doubling (Suc (Suc n)) = 2 ^ k"
      using k by (simp del: doubling.simps add: doubling.simps(2)[of "Suc n"])
    then show ?thesis ..
  qed
qed

lemma doubling_values: "map doubling [0..<9] = [0, 1, 2, 4, 4, 8, 8, 8, 8]"
  by (simp add: upt_rec numeral_eq_Suc)

lemma run_insertions:
  "\<forall>c\<in>set cs. is_insertion this c \<Longrightarrow> run T cs st = Returns () s \<Longrightarrow>
   m_size (vecs st this) = n \<Longrightarrow> m_capacity (m_data (vecs st this)) = doubling n \<Longrightarrow>
   m_size (vecs s this) = n + length cs \<and> m_capacity (m_data (vecs s this)) = doubling (n + length cs)"
proof (induction cs arbitrary: st n)
  case Nil
  then show ?case by simp
next
  case (Cons c cs)
  from Cons.prems(2) obtain s1 where p: "perform T c st = Returns () s1" and r: "run T cs s1 = Returns () s"
    by (cases "perform T c st") (simp_all split: if_splits)
  have "is_insertion this c" using Cons.prems(1) by simp
  from insertion_Returns[OF this p] have i: "inserted st this s1" .
  have sz: "m_size (vecs s1 this) = Suc n" using i Cons.prems(3) by (simp add: inserted_def)
  have cp: "m_capacity (m_data (vecs s1 this)) = doubling (Suc n)"
    using i Cons.prems(3,4) by (simp add: inserted_def)
  have "\<forall>c\<in>set cs. is_insertion this c" using Cons.prems(1) by simp
  from Cons.IH[OF this r sz cp] show ?case by simp
qed

text \<open>
  Claim C7, the failing instance.  Move construction is neither \<open>Swap\<close> nor move
  assignment, and it decreases the capacity of its source: constructing a vector at
  address 1 from the vector \<open>[7]\<close> of capacity 1 at address 0 leaves the latter with
  capacity 0.
\<close>

theorem move_construction_decreases_capacity:
  "Capacity full_one 0 = 1 \<and> Capacity (Vector_move 1 0 full_one) 0 = 0
   \<and> Capacity (Vector_move 1 0 full_one) 1 = 1"
  by (simp add: Capacity_def Vector_move_def full_one_def set_vec_def Let_def RawMemory_default_def)

text \<open>
  Claim C7, amended.  A call of \<open>PushBack\<close>, \<open>EmplaceBack\<close>, \<open>Emplace\<close> or \<open>Insert\<close> that
  returns adds one to the size, and sets the capacity to \<open>max(1, size * 2)\<close> if the vector
  was full and leaves it alone otherwise, whatever the element type.  Hence after any
  sequence of such calls on a vector that starts with size and capacity 0 the capacity is
  \<open>doubling n\<close>, \<open>n\<close> the number of calls: a sequence that never decreases, whose every
  change is from 0 to 1 or a doubling, whose values after the first are powers of two, and
  that starts 0, 1, 2, 4, 4, 8, 8, 8, 8.  No call other than \<open>Swap\<close> and move assignment
  leaves any vector with a smaller capacity, whether it returns or throws; copy
  construction, sized construction and the destructor leave every other vector object as
  it is; move construction leaves its source with capacity 0 and gives the capacity of the
  source to the new vector.
\<close>

theorem capacity_follows_doubling:
  "(is_insertion this c \<and> perform T c st = Returns () s \<longrightarrow>
      Size s this = Size st this + 1 \<and>
      Capacity s this = (if Size st this = Capacity st this then max 1 (2 * Size st this)
                         else Capacity st this))
   \<and> ((\<forall>c\<in>set cs. is_insertion this c) \<and> Size st0 this = 0 \<and> Capacity st0 this = 0
        \<and> run T cs st0 = Returns () s0 \<longrightarrow>
      Size s0 this = length cs \<and> Capacity s0 this = doubling (length cs))
   \<and> doubling n \<le> doubling (Suc n)
   \<and> (doubling (Suc n) = doubling n \<or> doubling (Suc n) = max 1 (2 * doubling n))
   \<and> n \<le> doubling n
   \<and> (\<exists>k. doubling (Suc n) = 2 ^ k)
   \<and> map doubling [0..<9] = [0, 1, 2, 4, 4, 8, 8, 8, 8]
   \<and> (\<not> exchanges c1 \<and> final_state (perform T c1 st1) = Some s1 \<longrightarrow> Capacity st1 w \<le> Capacity s1 w)
   \<and> (final_state (Vector_copy T v st2) = Some s2 \<longrightarrow> vecs s2 = vecs st2)
   \<and> (final_state (Vector_sized T k st3) = Some s3 \<longrightarrow> vecs s3 = vecs st3)
   \<and> (final_state (Vector_dtor v st4) = Some s4 \<longrightarrow> vecs s4 = vecs st4)
   \<and> (new_vector \<noteq> other \<longrightarrow>
        Capacity (Vector_move new_vector other st5) other = 0
      \<and> Capacity (Vector_move new_vector other st5) new_vector = Capacity st5 other
      \<and> (\<forall>u. u \<noteq> new_vector \<and> u \<noteq> other \<longrightarrow> vecs (Vector_move new_vector other st5) u = vecs st5 u))"
proof -
  have 1: "is_insertion this c \<and> perform T c st = Returns () s \<longrightarrow>
      Size s this = Size st this + 1 \<and>
      Capacity s this = (if Size st this = Capacity st this then max 1 (2 * Size st this)
                         else Capacity st this)"
  proof
    assume "is_insertion this c \<and> perform T c st = Returns () s"
    then have "inserted st this s" using insertion_Returns by blast
    then show "Size s this = Size st this + 1 \<and>
      Capacity s this = (if Size st this = Capacity st this then max 1 (2 * Size st this)
                         else Capacity st this)"
      by (simp add: inserted_def Size_def Capacity_def)
  qed
  have 2: "(\<forall>c\<in>set cs. is_insertion this c) \<and> Size st0 this = 0 \<and> Capacity st0 this = 0
        \<and> run T cs st0 = Returns () s0 \<longrightarrow>
      Size s0 this = length cs \<and> Capacity s0 this = doubling (length cs)"
  proof
    assume a: "(\<forall>c\<in>set cs. is_insertion this c) \<and> Size st0 this = 0 \<and> Capacity st0 this = 0
        \<and> run T cs st0 = Returns () s0"
    then have "m_size (vecs st0 this) = 0" "m_capacity (m_data (vecs st0 this)) = doubling 0"
      by (simp_all add: Size_def Capacity_def)
    from run_insertions[OF _ _ this, of cs T s0] a
    show "Size s0 this = length cs \<and> Capacity s0 this = doubling (length cs)"
      by (simp add: Size_def Capacity_def)
  qed
  have 3: "\<not> exchanges c1 \<and> final_state (perform T c1 st1) = Some s1 \<longrightarrow> Capacity st1 w \<le> Capacity s1 w"
  proof
    assume a: "\<not> exchanges c1 \<and> final_state (perform T c1 st1) = Some s1"
    then have "post (perform T c1 st1) (no_shrink st1)" by (simp add: perform_no_shrink)
    from post_final[OF this] a have "no_shrink st1 s1" by simp
    then show "Capacity st1 w \<le> Capacity s1 w" by (simp add: no_shrink_def Capacity_def)
  qed
  have 4: "final_state (Vector_copy T v st2) = Some s2 \<longrightarrow> vecs s2 = vecs st2"
    using post_final[OF vecs_Vector_copy[OF refl]] by blast
  have 5: "final_state (Vector_sized T k st3) = Some s3 \<longrightarrow> vecs s3 = vecs st3"
    using post_final[OF vecs_Vector_sized[OF refl]] by blast
  have 6: "final_state (Vector_dtor v st4) = Some s4 \<longrightarrow> vecs s4 = vecs st4"
    using post_final[OF vecs_Vector_dtor[OF refl]] by blast
  have 7: "new_vector \<noteq> other \<longrightarrow>
        Capacity (Vector_move new_vector other st5) other = 0
      \<and> Capacity (Vector_move new_vector other st5) new_vector = Capacity st5 other
      \<and> (\<forall>u. u \<noteq> new_vector \<and> u \<noteq> other \<longrightarrow> vecs (Vector_move new_vector other st5) u = vecs st5 u)"
    by (simp add: Capacity_def Vector_move_def set_vec_def Let_def RawMemory_default_def)
  show ?thesis
    using 1 2 3 4 5 6 7 doubling_mono_Suc[of n] doubling_step[of n] doubling_ge[of n]
      doubling_power[of n] doubling_values
    by (simp only: simp_thms)
qed

theorem capacity_follows_doubling_witness:
  "(\<exists>s. perform throwing_copy (Call_PushBack 0 (External 5)) full_one = Returns () s
       \<and> Size s 0 = 2 \<and> Capacity s 0 = 2)
   \<and> (\<exists>s0. run throwing_copy [Call_PushBack 0 (External 1), Call_EmplaceBack 0 (ByCopy (External 3)),
              Call_Insert 0 (Some 1, 1) (External 2)] empty_state = Returns () s0
       \<and> Size s0 0 = 3 \<and> Capacity s0 0 = 4)
   \<and> (\<exists>s1. final_state (perform throwing_copy (Call_PopBack 0) three_state) = Some s1
       \<and> Capacity three_state 0 \<le> Capacity s1 0)
   \<and> (\<exists>s2. final_state (Vector_copy throwing_copy (vecs three_state 0) three_state) = Some s2
       \<and> vecs s2 = vecs three_state)
   \<and> (\<exists>s3. final_state (Vector_sized throwing_copy 2 three_state) = Some s3
       \<and> vecs s3 = vecs three_state)
   \<and> (\<exists>s4. final_state (Vector_dtor (vecs three_state 0) three_state) = Some s4
       \<and> vecs s4 = vecs three_state)
   \<and> Capacity (Vector_move 1 0 three_state) 0 = 0
   \<and> Capacity (Vector_move 1 0 three_state) 1 = 4"
proof -
  let ?cs = "[Call_PushBack 0 (External 1), Call_EmplaceBack 0 (ByCopy (External 3)),
              Call_Insert 0 (Some 1, 1) (External (2::nat))]"
  obtain s where s: "perform throwing_copy (Call_PushBack 0 (External 5)) full_one = Returns () s"
    by (simp add: run_defs throwing_copy_def full_one_def)
  obtain s0 where s0: "run throwing_copy ?cs empty_state = Returns () s0"
    by (simp add: run_defs throwing_copy_def empty_state_def at_element_or_end_def drop_result_def Let_def)
  obtain s1 where s1: "final_state (perform throwing_copy (Call_PopBack 0) three_state) = Some s1"
    by (simp add: run_defs three_state_def)
  obtain s2 where s2: "final_state (Vector_copy throwing_copy (vecs three_state 0) three_state) = Some s2"
    by (simp add: run_defs three_state_def throwing_copy_def numeral_3_eq_3)
  obtain s3 where s3: "final_state (Vector_sized throwing_copy 2 three_state) = Some s3"
    by (simp add: run_defs three_state_def throwing_copy_def numeral_2_eq_2)
  obtain s4 where s4: "final_state (Vector_dtor (vecs three_state 0) three_state) = Some s4"
    by (simp add: run_defs three_state_def throwing_copy_def numeral_3_eq_3)
  have a: "is_insertion 0 (Call_PushBack 0 (External (5::nat)))" "\<forall>c\<in>set ?cs. is_insertion 0 c"
    "\<not> exchanges (Call_PopBack 0 :: nat call)" "(1::nat) \<noteq> 0"
    by simp_all
  have b: "Size full_one 0 = 1" "Capacity full_one 0 = 1" "Size empty_state 0 = 0" "Capacity empty_state 0 = 0"
    "Capacity three_state 0 = 4" "doubling 3 = 4"
    by (simp_all add: Size_def Capacity_def full_one_def empty_state_def three_state_def
        Vector_default_def RawMemory_default_def numeral_3_eq_3)
  from capacity_follows_doubling[where this = 0 and c = "Call_PushBack 0 (External 5)"
      and T = throwing_copy and st = full_one and s = s and cs = ?cs and ?st0.0 = empty_state
      and ?s0.0 = s0 and ?c1.0 = "Call_PopBack 0" and ?st1.0 = three_state and ?s1.0 = s1
      and w = 0 and v = "vecs three_state 0" and ?st2.0 = three_state and ?s2.0 = s2
      and k = 2 and ?st3.0 = three_state and ?s3.0 = s3 and ?st4.0 = three_state and ?s4.0 = s4
      and new_vector = 1 and other = 0 and ?st5.0 = three_state and n = 0]
  have "Size s 0 = 2 \<and> Capacity s 0 = 2" "Size s0 0 = 3 \<and> Capacity s0 0 = 4"
    "Capacity three_state 0 \<le> Capacity s1 0" "vecs s2 = vecs three_state"
    "vecs s3 = vecs three_state" "vecs s4 = vecs three_state"
    "Capacity (Vector_move 1 0 three_state) 0 = 0" "Capacity (Vector_move 1 0 three_state) 1 = 4"
    using s s0 s1 s2 s3 s4 a b by simp_all
  then show ?thesis using s s0 s1 s2 s3 s4 by simp
qed

subsection \<open>The slot left behind by Erase\<close>

lemma reused_simps [simp]:
  "reused p [] = False" "reused p (ev # evs) = (constructs p ev \<or> reused p evs)"
  "reused p (evs @ evs') = (reused p evs \<or> reused p evs')"
  by (auto simp: reused_def list_ex_iff)


lemma post2_simps [simp]:
  "post2 (Returns r s) Q E = Q s" "post2 (Throws s) Q E = E s" "post2 AssertFailed Q E" "post2 Undefined Q E"
  by (simp_all add: post2_def)


lemma post2_unwind: "post2 m Q E' \<Longrightarrow> (\<And>s. E' s \<Longrightarrow> E (c s)) \<Longrightarrow> post2 (unwind c m) Q E"
  by (cases m) simp_all



lemma post2_if:
  "(c \<Longrightarrow> post2 m1 Q E) \<Longrightarrow> (\<not> c \<Longrightarrow> post2 m2 Q E) \<Longrightarrow> post2 (if c then m1 else m2) Q E"
  by simp


lemma keeps_store [simp]: "keeps b k n r V (store p c s) = keeps b k n r V s"
  by (simp add: keeps_def)









lemma keeps_assert: "keeps b k n r V s \<Longrightarrow> post (assert c s) (keeps b k n r V)"
  by (simp add: assert_def)

































lemma Swap_fields [simp]:
  "trace (Swap this other s) = trace s" "fresh (Swap this other s) = fresh s"
  "vecs (Swap this other s) = (vecs s)(this := vecs s other, other := vecs s this)"
  by (simp_all add: Swap_def set_vec_def Let_def)

lemma move_assign_fields [simp]:
  "trace (move_assign this rhs s) = trace s" "fresh (move_assign this rhs s) = fresh s"
  "vecs (move_assign this rhs s) = (if this = rhs then vecs s else
     (vecs s)(this := (vecs s this)\<lparr>m_data := m_data (vecs s rhs), m_size := m_size (vecs s rhs)\<rparr>,
              rhs := (vecs s rhs)\<lparr>m_data := m_data (vecs s this), m_size := 0\<rparr>))"
  by (auto simp: move_assign_def set_vec_def Let_def fun_upd_twist)

lemma Vector_move_fields [simp]:
  "trace (Vector_move this other s) = trace s" "fresh (Vector_move this other s) = fresh s"
  "vecs (Vector_move this other s) =
     (vecs s)(other := (vecs s other)\<lparr>m_data := RawMemory_default, m_size := 0\<rparr>,
              this := \<lparr>m_data = m_data (vecs s other), m_size = m_size (vecs s other)\<rparr>)"
  by (simp_all add: Vector_move_def set_vec_def Let_def)























end
